theory Spec2Isabelle
  imports Main "HOL-Library.AList"
begin

section \<open>Python values and built-ins used by the client\<close>

text \<open>
  The client of \<^verbatim>\<open>x402_client.py\<close> handles whatever \<^verbatim>\<open>response.json()\<close> returns: any
  JSON value, as the Python value it parses to. A dict is an association list in insertion
  order. Python floats are not modelled: the type of float values is the parameter \<open>'f\<close>.
  A \<open>string\<close> stands for a Python \<^verbatim>\<open>str\<close>, one \<open>char\<close> for one code point.
\<close>

datatype 'f jvalue =
    JNull
  | JBool bool
  | JInt int
  | JFloat 'f
  | JStr string
  | JArr "'f jvalue list"
  | JObj "(string \<times> 'f jvalue) list"

type_synonym 'f dict = "(string \<times> 'f jvalue) list"

text \<open>
  The exceptions that can travel through the client. \<open>Timeout\<close> stands for every instance
  of \<^verbatim>\<open>requests.Timeout\<close>, \<open>RequestException\<close> for every other instance of
  \<^verbatim>\<open>requests.RequestException\<close> (with \<^verbatim>\<open>str(e)\<close>), \<open>OtherException\<close> for
  every other instance of \<^verbatim>\<open>Exception\<close> the transport raises, and \<open>BaseException\<close>
  for what is raised outside \<^verbatim>\<open>Exception\<close>, such as \<^verbatim>\<open>KeyboardInterrupt\<close> and
  \<^verbatim>\<open>SystemExit\<close>, by the name of its class.
\<close>

datatype exn =
    Timeout
  | RequestException string
  | JSONDecodeError
  | AttributeError
  | TypeError
  | OtherException string
  | BaseException string

text \<open>What \<^verbatim>\<open>except Exception\<close> catches.\<close>

definition is_Exception :: "exn \<Rightarrow> bool" where
  "is_Exception e = (case e of BaseException _ \<Rightarrow> False | _ \<Rightarrow> True)"

text \<open>\<^verbatim>\<open>d.get(key, default)\<close> on a dict.\<close>

definition dict_get :: "'f dict \<Rightarrow> string \<Rightarrow> 'f jvalue \<Rightarrow> 'f jvalue" where
  "dict_get d k dflt = (case map_of d k of Some v \<Rightarrow> v | None \<Rightarrow> dflt)"

text \<open>
  \<^verbatim>\<open>v.get(key, default)\<close> on any parsed value: only a dict has the method, every
  other value raises \<^verbatim>\<open>AttributeError\<close>.
\<close>

definition attr_get :: "'f jvalue \<Rightarrow> string \<Rightarrow> 'f jvalue \<Rightarrow> exn + 'f jvalue" where
  "attr_get v k dflt = (case v of JObj d \<Rightarrow> Inr (dict_get d k dflt) | _ \<Rightarrow> Inl AttributeError)"

text \<open>
  \<^verbatim>\<open>{**a, **b}\<close>: the entries of \<open>a\<close> in their order, each key of \<open>b\<close> overwriting in
  place or appended at the end.
\<close>

definition dict_merge :: "'f dict \<Rightarrow> 'f dict \<Rightarrow> 'f dict" where
  "dict_merge a b = fold (\<lambda>(k, v). AList.update k v) b a"

text \<open>
  \<^verbatim>\<open>str.lower()\<close> on the strings of the model, whose characters are the code points
  below 256. There it works character by character: the letters \<^verbatim>\<open>A\<close> to \<^verbatim>\<open>Z\<close> and
  the code points \<^verbatim>\<open>U+00C0\<close> to \<^verbatim>\<open>U+00DE\<close> other than the multiplication sign
  \<^verbatim>\<open>U+00D7\<close> move up by 32, every other character stays.
\<close>

definition ascii_uppercase :: string where
  "ascii_uppercase = ''ABCDEFGHIJKLMNOPQRSTUVWXYZ''"

definition ascii_lowercase :: string where
  "ascii_lowercase = ''abcdefghijklmnopqrstuvwxyz''"

definition latin1_uppercase :: string where
  "latin1_uppercase =
     [CHR 0xC0, CHR 0xC1, CHR 0xC2, CHR 0xC3, CHR 0xC4, CHR 0xC5, CHR 0xC6, CHR 0xC7,
      CHR 0xC8, CHR 0xC9, CHR 0xCA, CHR 0xCB, CHR 0xCC, CHR 0xCD, CHR 0xCE, CHR 0xCF,
      CHR 0xD0, CHR 0xD1, CHR 0xD2, CHR 0xD3, CHR 0xD4, CHR 0xD5, CHR 0xD6,
      CHR 0xD8, CHR 0xD9, CHR 0xDA, CHR 0xDB, CHR 0xDC, CHR 0xDD, CHR 0xDE]"

definition latin1_lowercase :: string where
  "latin1_lowercase =
     [CHR 0xE0, CHR 0xE1, CHR 0xE2, CHR 0xE3, CHR 0xE4, CHR 0xE5, CHR 0xE6, CHR 0xE7,
      CHR 0xE8, CHR 0xE9, CHR 0xEA, CHR 0xEB, CHR 0xEC, CHR 0xED, CHR 0xEE, CHR 0xEF,
      CHR 0xF0, CHR 0xF1, CHR 0xF2, CHR 0xF3, CHR 0xF4, CHR 0xF5, CHR 0xF6,
      CHR 0xF8, CHR 0xF9, CHR 0xFA, CHR 0xFB, CHR 0xFC, CHR 0xFD, CHR 0xFE]"

definition lower_char :: "char \<Rightarrow> char" where
  "lower_char c =
     (case map_of (zip (ascii_uppercase @ latin1_uppercase)
                       (ascii_lowercase @ latin1_lowercase)) c of
        Some l \<Rightarrow> l
      | None \<Rightarrow> c)"

text \<open>
  \<^verbatim>\<open>str.upper()\<close> on the ASCII letters, every other character left as it is. The client
  upper-cases the chain name \<^verbatim>\<open>base\<close> and the method it compares with \<^verbatim>\<open>GET\<close> and
  \<^verbatim>\<open>POST\<close>; no character below 256 other than an ASCII letter is upper-cased to a
  letter of these words, so the comparison comes out as with \<^verbatim>\<open>str.upper()\<close>.
\<close>

definition upper_char :: "char \<Rightarrow> char" where
  "upper_char c =
     (case map_of (zip ascii_lowercase ascii_uppercase) c of Some u \<Rightarrow> u | None \<Rightarrow> c)"

definition lower :: "string \<Rightarrow> string" where
  "lower s = map lower_char s"

definition upper :: "string \<Rightarrow> string" where
  "upper s = map upper_char s"

text \<open>\<^verbatim>\<open>v.lower()\<close> on any parsed value: only a \<^verbatim>\<open>str\<close> has the method.\<close>

definition str_lower :: "'f jvalue \<Rightarrow> exn + string" where
  "str_lower v = (case v of JStr s \<Rightarrow> Inr (lower s) | _ \<Rightarrow> Inl AttributeError)"

text \<open>\<^verbatim>\<open>q in s\<close> on two strings: \<open>q\<close> occurs in \<open>s\<close> as a contiguous run.\<close>

fun contains :: "string \<Rightarrow> string \<Rightarrow> bool" where
  "contains q [] = (q = [])"
| "contains q (c # cs) = (take (length q) (c # cs) = q \<or> contains q cs)"

text \<open>
  \<^verbatim>\<open>for x in v\<close> on any parsed value: a list gives its elements, a \<^verbatim>\<open>str\<close> its
  characters, a dict its keys; the other values are not iterable.
\<close>

definition iterate :: "'f jvalue \<Rightarrow> exn + 'f jvalue list" where
  "iterate v =
     (case v of
        JArr xs \<Rightarrow> Inr xs
      | JStr s \<Rightarrow> Inr (map (\<lambda>c. JStr [c]) s)
      | JObj d \<Rightarrow> Inr (map (\<lambda>(k, _). JStr k) d)
      | _ \<Rightarrow> Inl TypeError)"

text \<open>\<^verbatim>\<open>len(v)\<close> on any parsed value.\<close>

definition py_len :: "'f jvalue \<Rightarrow> exn + nat" where
  "py_len v =
     (case v of
        JArr xs \<Rightarrow> Inr (length xs)
      | JStr s \<Rightarrow> Inr (length s)
      | JObj d \<Rightarrow> Inr (length d)
      | _ \<Rightarrow> Inl TypeError)"

text \<open>\<^verbatim>\<open>str(n)\<close> on an \<^verbatim>\<open>int\<close>: decimal digits, a minus sign below zero.\<close>

definition digit :: "nat \<Rightarrow> char" where
  "digit d = (case map_of (zip [0, 1, 2, 3, 4, 5, 6, 7, 8, 9] ''0123456789'') d of
                Some c \<Rightarrow> c | None \<Rightarrow> CHR ''0'')"

function str_nat :: "nat \<Rightarrow> string" where
  "str_nat n = (if n < 10 then [digit n] else str_nat (n div 10) @ [digit (n mod 10)])"
  by pat_completeness auto
termination
  by (relation "measure (\<lambda>n. n)") auto

definition str_int :: "int \<Rightarrow> string" where
  "str_int i = (if i < 0 then CHR ''-'' # str_nat (nat (- i)) else str_nat (nat i))"

text \<open>
  \<^verbatim>\<open>f"{v}"\<close> on a parsed value: a \<^verbatim>\<open>str\<close> is inserted as it is; for every other
  value the interpreter's \<^verbatim>\<open>str()\<close> is the parameter \<open>str_of\<close>.
\<close>

definition format_value :: "('f jvalue \<Rightarrow> string) \<Rightarrow> 'f jvalue \<Rightarrow> string" where
  "format_value str_of v = (case v of JStr s \<Rightarrow> s | _ \<Rightarrow> str_of v)"

text \<open>The truth value of an \<^verbatim>\<open>Optional[str]\<close>: \<^verbatim>\<open>None\<close> and \<^verbatim>\<open>""\<close> are false.\<close>

definition truthy :: "string option \<Rightarrow> bool" where
  "truthy h = (case h of None \<Rightarrow> False | Some t \<Rightarrow> t \<noteq> [])"

section \<open>The transport session\<close>

text \<open>
  A call of \<^verbatim>\<open>session.get(url, params=, headers=, timeout=)\<close> or
  \<^verbatim>\<open>session.post(url, json=, headers=, timeout=)\<close>.
\<close>

datatype 'f call =
    SessionGet string "'f dict option" "(string \<times> string) list" int
  | SessionPost string "'f dict option" "(string \<times> string) list" int

text \<open>
  What the client reads of a \<^verbatim>\<open>requests.Response\<close>: \<open>json\<close> is the result of
  \<^verbatim>\<open>response.json()\<close>, \<open>None\<close> when it raises \<^verbatim>\<open>JSONDecodeError\<close>.
\<close>

record 'f response =
  status_code :: int
  resp_text :: string
  json :: "'f jvalue option"
  reason :: string
  url :: string

datatype 'f reply = Reply "'f response" | Raises exn

text \<open>
  The session and the network behind it: \<open>network s n c\<close> is what the network answers to
  the call \<open>c\<close> when \<open>n\<close> calls went out before it, \<open>sent\<close> the calls that went out so far.
\<close>

record 'f session =
  network :: "nat \<Rightarrow> 'f call \<Rightarrow> 'f reply"
  sent :: "'f call list"

definition request :: "'f call \<Rightarrow> 'f session \<Rightarrow> (exn + 'f response) \<times> 'f session" where
  "request c s =
     ((case network s (length (sent s)) c of Reply r \<Rightarrow> Inr r | Raises e \<Rightarrow> Inl e),
      s\<lparr>sent := sent s @ [c]\<rparr>)"

text \<open>
  \<^verbatim>\<open>response.raise_for_status()\<close> of the requests library: \<^verbatim>\<open>HTTPError\<close>, a
  \<^verbatim>\<open>RequestException\<close>, for the codes 400 to 599.
\<close>

definition raise_for_status :: "'f response \<Rightarrow> exn + unit" where
  "raise_for_status r =
     (if 400 \<le> status_code r \<and> status_code r < 500 then
        Inl (RequestException
          (str_int (status_code r) @ '' Client Error: '' @ reason r @ '' for url: '' @ url r))
      else if 500 \<le> status_code r \<and> status_code r < 600 then
        Inl (RequestException
          (str_int (status_code r) @ '' Server Error: '' @ reason r @ '' for url: '' @ url r))
      else Inr ())"

section \<open>The client\<close>

definition BASE_URL :: string where
  "BASE_URL = ''https://x402-api.onrender.com''"

definition PAYMENT_ADDRESS :: string where
  "PAYMENT_ADDRESS = ''0xfb1c478BD5567BdcD39782E0D6D23418bFda2430''"

definition PAYMENT_CHAIN :: string where
  "PAYMENT_CHAIN = ''base''"

record client =
  base_url :: string
  timeout :: int

text \<open>\<^verbatim>\<open>X402Client.__init__\<close>: \<^verbatim>\<open>base_url or self.BASE_URL\<close>.\<close>

definition X402Client :: "string option \<Rightarrow> int \<Rightarrow> client" where
  "X402Client b t = \<lparr>base_url = (if truthy b then the b else BASE_URL), timeout = t\<rparr>"

subsection \<open>\<^verbatim>\<open>call_api\<close>\<close>

text \<open>The dict \<^verbatim>\<open>instructions\<close> built in the 402 branch from the resolved cost.\<close>

definition instructions :: "('f jvalue \<Rightarrow> string) \<Rightarrow> 'f jvalue \<Rightarrow> 'f dict" where
  "instructions str_of cost_usdc =
     [(''message'', JStr (''Payment required: '' @ format_value str_of cost_usdc @ '' USDC'')),
      (''instructions'',
         JArr [JStr (''1. Send '' @ format_value str_of cost_usdc @ '' USDC on ''
                       @ upper PAYMENT_CHAIN @ '' to: '' @ PAYMENT_ADDRESS),
               JStr ''2. Wait for transaction confirmation'',
               JStr ''3. Call this endpoint again with transaction hash'']),
      (''payment_address'', JStr PAYMENT_ADDRESS),
      (''payment_chain'', JStr PAYMENT_CHAIN),
      (''payment_token'', JStr ''USDC''),
      (''payment_amount'', cost_usdc)]"

text \<open>
  The payload the 402 branch uses when \<^verbatim>\<open>response.json()\<close> raises
  \<^verbatim>\<open>JSONDecodeError\<close>.
\<close>

definition fallback_details :: "'f jvalue" where
  "fallback_details =
     JObj [(''amount'', JStr ''unknown''),
           (''address'', JStr PAYMENT_ADDRESS),
           (''chain'', JStr PAYMENT_CHAIN)]"

text \<open>
  The part of \<^verbatim>\<open>call_api\<close> under \<^verbatim>\<open># Handle response\<close>: one branch for each status
  code the source tests, in its order. The result is the returned dict, or the exception
  that leaves the branch.
\<close>

definition handle_response ::
  "('f jvalue \<Rightarrow> string) \<Rightarrow> string option \<Rightarrow> 'f response \<Rightarrow> exn + 'f dict" where
  "handle_response str_of payment_tx_hash response =
     (if status_code response = 200 then
        (let data = (case json response of
                       Some v \<Rightarrow> v
                     | None \<Rightarrow> JObj [(''text'', JStr (resp_text response))])
         in Inr [(''success'', JBool True),
                 (''data'', data),
                 (''payment_status'',
                    JStr (if truthy payment_tx_hash then ''completed'' else ''free''))])
      else if status_code response = 402 then
        (let payment_details = (case json response of
                                  Some v \<Rightarrow> v
                                | None \<Rightarrow> fallback_details)
         in case attr_get payment_details ''required_payment'' (JStr ''unknown'') of
              Inl e \<Rightarrow> Inl e
            | Inr dflt \<Rightarrow>
               (case attr_get payment_details ''amount'' dflt of
                  Inl e \<Rightarrow> Inl e
                | Inr cost_usdc \<Rightarrow>
                   (case payment_details of
                      JObj d \<Rightarrow>
                        Inr [(''success'', JBool False),
                             (''payment_required'', JBool True),
                             (''payment_details'',
                                JObj (dict_merge d (instructions str_of cost_usdc))),
                             (''cost_usdc'', cost_usdc)]
                    | _ \<Rightarrow> Inl TypeError)))
      else if status_code response = 400 then
        (case json response of
           Some error_data \<Rightarrow>
             (case attr_get error_data ''error'' (JStr ''Bad request'') of
                Inl e \<Rightarrow> Inl e
              | Inr error_msg \<Rightarrow> Inr [(''success'', JBool False), (''error'', error_msg)])
         | None \<Rightarrow>
             Inr [(''success'', JBool False), (''error'', JStr (resp_text response))])
      else if status_code response = 429 then
        Inr [(''success'', JBool False),
             (''error'', JStr ''Rate limit exceeded. Please try again later.'')]
      else if status_code response = 500 then
        Inr [(''success'', JBool False),
             (''error'', JStr ''Server error. Please try again later.'')]
      else
        (case json response of
           Some error_data \<Rightarrow>
             (case attr_get error_data ''error''
                     (JStr (''HTTP '' @ str_int (status_code response))) of
                Inl e \<Rightarrow> Inl e
              | Inr error_msg \<Rightarrow> Inr [(''success'', JBool False), (''error'', error_msg)])
         | None \<Rightarrow>
             Inr [(''success'', JBool False),
                  (''error'', JStr (''HTTP '' @ str_int (status_code response) @ '': ''
                                     @ take 200 (resp_text response)))]))"

text \<open>
  The body of the \<^verbatim>\<open>try\<close> of \<^verbatim>\<open>call_api\<close>: the headers, the one request, the
  branch on the response.
\<close>

definition call_api_try ::
  "('f jvalue \<Rightarrow> string) \<Rightarrow> client \<Rightarrow> string \<Rightarrow> 'f dict option \<Rightarrow> string \<Rightarrow> string option
     \<Rightarrow> 'f session \<Rightarrow> (exn + 'f dict) \<times> 'f session" where
  "call_api_try str_of self endpoint params method payment_tx_hash s =
     (let url = base_url self @ endpoint;
          headers = (if truthy payment_tx_hash
                     then [(''X-Payment-TxHash'', the payment_tx_hash),
                           (''X-Payment-Chain'', PAYMENT_CHAIN)]
                     else [])
      in if upper method = ''GET'' then
           (case request (SessionGet url params headers (timeout self)) s of
              (Inl e, s') \<Rightarrow> (Inl e, s')
            | (Inr response, s') \<Rightarrow> (handle_response str_of payment_tx_hash response, s'))
         else if upper method = ''POST'' then
           (case request (SessionPost url params headers (timeout self)) s of
              (Inl e, s') \<Rightarrow> (Inl e, s')
            | (Inr response, s') \<Rightarrow> (handle_response str_of payment_tx_hash response, s'))
         else
           (Inr [(''success'', JBool False),
                 (''error'', JStr (''Unsupported HTTP method: '' @ method))], s))"

text \<open>
  \<^verbatim>\<open>call_api\<close>: the \<^verbatim>\<open>try\<close> with its two \<^verbatim>\<open>except\<close> clauses,
  \<^verbatim>\<open>requests.Timeout\<close> first, then \<^verbatim>\<open>requests.RequestException\<close>. Any other
  exception leaves the function.
\<close>

definition call_api ::
  "('f jvalue \<Rightarrow> string) \<Rightarrow> client \<Rightarrow> string \<Rightarrow> 'f dict option \<Rightarrow> string \<Rightarrow> string option
     \<Rightarrow> 'f session \<Rightarrow> (exn + 'f dict) \<times> 'f session" where
  "call_api str_of self endpoint params method payment_tx_hash s =
     (case call_api_try str_of self endpoint params method payment_tx_hash s of
        (Inl Timeout, s') \<Rightarrow>
          (Inr [(''success'', JBool False),
                (''error'', JStr (''Request timeout after '' @ str_int (timeout self)
                                   @ '' seconds''))], s')
      | (Inl (RequestException msg), s') \<Rightarrow>
          (Inr [(''success'', JBool False),
                (''error'', JStr (''Request error: '' @ msg))], s')
      | (r, s') \<Rightarrow> (r, s'))"

subsection \<open>Discovery, search and lookup\<close>

text \<open>
  \<^verbatim>\<open>discover_services\<close>: one GET of \<^verbatim>\<open>/api/services\<close>, \<^verbatim>\<open>raise_for_status\<close>, the
  parsed body, and \<^verbatim>\<open>len(services)\<close> for the log line. Its \<^verbatim>\<open>except\<close> clause logs
  and raises again, so every exception leaves the function.
\<close>

definition discover_services ::
  "client \<Rightarrow> 'f session \<Rightarrow> (exn + 'f jvalue) \<times> 'f session" where
  "discover_services self s =
     (let url = base_url self @ ''/api/services''
      in case request (SessionGet url None [] (timeout self)) s of
           (Inl e, s') \<Rightarrow> (Inl e, s')
         | (Inr response, s') \<Rightarrow>
            (case raise_for_status response of
               Inl e \<Rightarrow> (Inl e, s')
             | Inr _ \<Rightarrow>
                (case json response of
                   None \<Rightarrow> (Inl JSONDecodeError, s')
                 | Some services \<Rightarrow>
                    (case py_len services of
                       Inl e \<Rightarrow> (Inl e, s')
                     | Inr _ \<Rightarrow> (Inr services, s')))))"

text \<open>
  \<^verbatim>\<open>any(q in tag.lower() for tag in tags)\<close>: it stops at the first tag that
  contains \<open>q\<close>, and a tag without \<^verbatim>\<open>lower\<close> raises when it is reached.
\<close>

fun any_tag :: "string \<Rightarrow> 'f jvalue list \<Rightarrow> exn + bool" where
  "any_tag q [] = Inr False"
| "any_tag q (tag # tags) =
     (case str_lower tag of
        Inl e \<Rightarrow> Inl e
      | Inr t \<Rightarrow> if contains q t then Inr True else any_tag q tags)"

text \<open>
  The condition of the comprehension in \<^verbatim>\<open>search_services\<close>, with the short-circuit
  of \<^verbatim>\<open>or\<close>: the description is read only when the name does not contain \<open>q\<close>, the
  tags only when neither does.
\<close>

definition matches :: "string \<Rightarrow> 'f jvalue \<Rightarrow> exn + bool" where
  "matches q svc =
     (case attr_get svc ''name'' (JStr []) of
        Inl e \<Rightarrow> Inl e
      | Inr n \<Rightarrow>
         (case str_lower n of
            Inl e \<Rightarrow> Inl e
          | Inr name \<Rightarrow>
             if contains q name then Inr True
             else
               (case attr_get svc ''description'' (JStr []) of
                  Inl e \<Rightarrow> Inl e
                | Inr d \<Rightarrow>
                   (case str_lower d of
                      Inl e \<Rightarrow> Inl e
                    | Inr description \<Rightarrow>
                       if contains q description then Inr True
                       else
                         (case attr_get svc ''tags'' (JArr []) of
                            Inl e \<Rightarrow> Inl e
                          | Inr t \<Rightarrow>
                             (case iterate t of
                                Inl e \<Rightarrow> Inl e
                              | Inr tags \<Rightarrow> any_tag q tags))))))"

text \<open>The comprehension: the services that match, in the order of \<open>services\<close>.\<close>

fun filter_services :: "string \<Rightarrow> 'f jvalue list \<Rightarrow> exn + 'f jvalue list" where
  "filter_services q [] = Inr []"
| "filter_services q (svc # services) =
     (case matches q svc of
        Inl e \<Rightarrow> Inl e
      | Inr keep \<Rightarrow>
         (case filter_services q services of
            Inl e \<Rightarrow> Inl e
          | Inr results \<Rightarrow> Inr (if keep then svc # results else results)))"

text \<open>\<^verbatim>\<open>search_services\<close>: its \<^verbatim>\<open>except\<close> clause logs and raises again.\<close>

definition search_services ::
  "client \<Rightarrow> string \<Rightarrow> 'f session \<Rightarrow> (exn + 'f jvalue list) \<times> 'f session" where
  "search_services self query s =
     (case discover_services self s of
        (Inl e, s') \<Rightarrow> (Inl e, s')
      | (Inr services, s') \<Rightarrow>
         (let q = lower query
          in case iterate services of
               Inl e \<Rightarrow> (Inl e, s')
             | Inr svcs \<Rightarrow> (filter_services q svcs, s')))"

text \<open>The loop of \<^verbatim>\<open>get_service_details\<close>: the first service with the name.\<close>

fun find_service :: "string \<Rightarrow> 'f jvalue list \<Rightarrow> exn + 'f jvalue option" where
  "find_service service_name [] = Inr None"
| "find_service service_name (svc # services) =
     (case attr_get svc ''name'' (JStr []) of
        Inl e \<Rightarrow> Inl e
      | Inr n \<Rightarrow>
         (case str_lower n of
            Inl e \<Rightarrow> Inl e
          | Inr name \<Rightarrow>
             if name = lower service_name then Inr (Some svc)
             else find_service service_name services))"

text \<open>The body of the \<^verbatim>\<open>try\<close> of \<^verbatim>\<open>get_service_details\<close>.\<close>

definition get_service_details_try ::
  "client \<Rightarrow> string \<Rightarrow> 'f session \<Rightarrow> (exn + 'f jvalue option) \<times> 'f session" where
  "get_service_details_try self service_name s =
     (case discover_services self s of
        (Inl e, s') \<Rightarrow> (Inl e, s')
      | (Inr services, s') \<Rightarrow>
         (case iterate services of
            Inl e \<Rightarrow> (Inl e, s')
          | Inr svcs \<Rightarrow> (find_service service_name svcs, s')))"

text \<open>
  \<^verbatim>\<open>get_service_details\<close>: \<^verbatim>\<open>except Exception\<close> returns \<^verbatim>\<open>None\<close> for every
  instance of \<^verbatim>\<open>Exception\<close> that the body raises; what is raised outside
  \<^verbatim>\<open>Exception\<close> leaves the function.
\<close>

definition get_service_details ::
  "client \<Rightarrow> string \<Rightarrow> 'f session \<Rightarrow> (exn + 'f jvalue option) \<times> 'f session" where
  "get_service_details self service_name s =
     (case get_service_details_try self service_name s of
        (Inl e, s') \<Rightarrow> (if is_Exception e then Inr None else Inl e, s')
      | (Inr found, s') \<Rightarrow> (Inr found, s'))"

section \<open>Reading sessions and outcomes\<close>

text \<open>
  \<open>answered s s' rep\<close>: between the sessions \<open>s\<close> and \<open>s'\<close> exactly one call went out, and
  the network answered it with \<open>rep\<close>.
\<close>

definition answered :: "'f session \<Rightarrow> 'f session \<Rightarrow> 'f reply \<Rightarrow> bool" where
  "answered s s' rep =
     (sent s' \<noteq> [] \<and> butlast (sent s') = sent s
      \<and> network s (length (sent s)) (last (sent s')) = rep)"

text \<open>
  The variants of the outcome, read off the returned dict: \<^verbatim>\<open>success\<close> is true,
  \<^verbatim>\<open>payment_required\<close> is true, or neither with an \<^verbatim>\<open>error\<close>.
\<close>

definition is_success :: "'f dict \<Rightarrow> bool" where
  "is_success out = (map_of out ''success'' = Some (JBool True))"

definition is_payment_required :: "'f dict \<Rightarrow> bool" where
  "is_payment_required out = (map_of out ''payment_required'' = Some (JBool True))"

definition is_failure :: "'f dict \<Rightarrow> bool" where
  "is_failure out =
     (map_of out ''success'' = Some (JBool False) \<and> map_of out ''payment_required'' = None
      \<and> map_of out ''error'' \<noteq> None)"

text \<open>The keys of the dict \<^verbatim>\<open>instructions\<close>.\<close>

definition synthesized_keys :: "string list" where
  "synthesized_keys =
     [''message'', ''instructions'', ''payment_address'', ''payment_chain'',
      ''payment_token'', ''payment_amount'']"

text \<open>
  A service as the data model has it, any field possibly missing: a dict whose
  \<^verbatim>\<open>name\<close> and \<^verbatim>\<open>description\<close>, when present, are strings and whose \<^verbatim>\<open>tags\<close>,
  when present, is a list of strings.
\<close>

definition is_str :: "'f jvalue \<Rightarrow> bool" where
  "is_str v = (case v of JStr _ \<Rightarrow> True | _ \<Rightarrow> False)"

definition str_field :: "'f dict \<Rightarrow> string \<Rightarrow> bool" where
  "str_field d k = (case map_of d k of None \<Rightarrow> True | Some v \<Rightarrow> is_str v)"

definition tags_field :: "'f dict \<Rightarrow> bool" where
  "tags_field d =
     (case map_of d ''tags'' of
        None \<Rightarrow> True
      | Some (JArr ts) \<Rightarrow> list_all is_str ts
      | Some _ \<Rightarrow> False)"

definition is_service :: "'f jvalue \<Rightarrow> bool" where
  "is_service v =
     (case v of
        JObj d \<Rightarrow> str_field d ''name'' \<and> str_field d ''description'' \<and> tags_field d
      | _ \<Rightarrow> False)"

text \<open>A dict with a name that is a string, or with no name: all the empty query reads.\<close>

definition has_str_name :: "'f jvalue \<Rightarrow> bool" where
  "has_str_name v = (case v of JObj d \<Rightarrow> str_field d ''name'' | _ \<Rightarrow> False)"

text \<open>
  The search as the specification words it, on services of the data model: a field that is
  missing reads as the empty string, missing tags as no tags, and a service is kept when the
  lower-cased query is a substring of its lower-cased name, or of its lower-cased
  description, or of one of its lower-cased tags.
\<close>

definition text_field :: "'f dict \<Rightarrow> string \<Rightarrow> string" where
  "text_field d k = (case map_of d k of Some (JStr s) \<Rightarrow> s | _ \<Rightarrow> [])"

definition tag_list :: "'f dict \<Rightarrow> string list" where
  "tag_list d =
     (case map_of d ''tags'' of
        Some (JArr ts) \<Rightarrow> map (\<lambda>t. case t of JStr s \<Rightarrow> s | _ \<Rightarrow> []) ts
      | _ \<Rightarrow> [])"

definition service_matches :: "string \<Rightarrow> 'f jvalue \<Rightarrow> bool" where
  "service_matches q svc =
     (case svc of
        JObj d \<Rightarrow>
          contains q (lower (text_field d ''name''))
          \<or> contains q (lower (text_field d ''description''))
          \<or> list_ex (\<lambda>tag. contains q (lower tag)) (tag_list d)
      | _ \<Rightarrow> False)"

text \<open>The lower-cased name of a service dict, the empty string when it has none.\<close>

definition name_lower :: "'f jvalue \<Rightarrow> string" where
  "name_lower v = (case v of JObj d \<Rightarrow> lower (text_field d ''name'') | _ \<Rightarrow> [])"

text \<open>Whether a service dict has the key \<^verbatim>\<open>name\<close>.\<close>

definition has_name :: "'f jvalue \<Rightarrow> bool" where
  "has_name v = (case v of JObj d \<Rightarrow> map_of d ''name'' \<noteq> None | _ \<Rightarrow> False)"

text \<open>
  Two concrete instances for the examples: a network that gives the same answer to every
  call, and \<^verbatim>\<open>str()\<close> on \<^verbatim>\<open>None\<close>, the booleans and the integers (the empty
  string stands in for the other values, which the examples do not format).
\<close>

definition always :: "'f reply \<Rightarrow> nat \<Rightarrow> 'f call \<Rightarrow> 'f reply" where
  "always rep n c = rep"

definition str_scalar :: "unit jvalue \<Rightarrow> string" where
  "str_scalar v =
     (case v of
        JNull \<Rightarrow> ''None''
      | JBool b \<Rightarrow> (if b then ''True'' else ''False'')
      | JInt i \<Rightarrow> str_int i
      | JStr s \<Rightarrow> s
      | _ \<Rightarrow> [])"

text \<open>
  The cost as the specification resolves it, key by key: the value of \<^verbatim>\<open>amount\<close> if the
  key is there, else the value of \<^verbatim>\<open>required_payment\<close> if that key is there, else the
  string \<^verbatim>\<open>unknown\<close>.
\<close>

definition cost_by_keys :: "'f dict \<Rightarrow> 'f jvalue" where
  "cost_by_keys d =
     (case map_of d ''amount'' of
        Some a \<Rightarrow> a
      | None \<Rightarrow> (case map_of d ''required_payment'' of Some p \<Rightarrow> p | None \<Rightarrow> JStr ''unknown''))"

text \<open>
  The response and the session of the examples, after \<^verbatim>\<open>_mock_response\<close> of the unit
  tests: a status code, the parsed body if there is one, the raw text.
\<close>

definition mock_response :: "int \<Rightarrow> 'f jvalue option \<Rightarrow> string \<Rightarrow> 'f response" where
  "mock_response code json_data txt =
     \<lparr>status_code = code, resp_text = txt, json = json_data, reason = [], url = []\<rparr>"

definition mock_session :: "'f reply \<Rightarrow> 'f session" where
  "mock_session rep = \<lparr>network = always rep, sent = []\<rparr>"

section \<open>One call, one answer\<close>

lemma answered_same: "\<not> answered s s rep"
proof
  assume "answered s s rep"
  then have ne: "sent s \<noteq> []" and "butlast (sent s) = sent s"
    by (simp_all add: answered_def)
  then have "length (butlast (sent s)) = length (sent s)" by simp
  then have "length (sent s) - 1 = length (sent s)" by simp
  with ne show False by (cases "sent s") simp_all
qed

lemma answered_request:
  "request c s = (r, s') \<Longrightarrow> answered s s' rep \<Longrightarrow>
     r = (case rep of Reply x \<Rightarrow> Inr x | Raises e \<Rightarrow> Inl e)"
  by (auto simp: request_def answered_def)

lemma request_answered:
  "request c s = (r, s') \<Longrightarrow> answered s s' (network s (length (sent s)) c)"
  by (auto simp: request_def answered_def)

lemma call_api_try_answered:
  assumes "call_api_try str_of self endpoint params method h s = (res, s')"
    and "answered s s' rep"
  shows "res = (case rep of Reply r \<Rightarrow> handle_response str_of h r | Raises e \<Rightarrow> Inl e)"
proof -
  consider (get) "upper method = ''GET''"
    | (post) "upper method \<noteq> ''GET''" "upper method = ''POST''"
    | (other) "upper method \<noteq> ''GET''" "upper method \<noteq> ''POST''"
    by blast
  then show ?thesis
  proof cases
    case get
    obtain r t where rq: "request (SessionGet (base_url self @ endpoint) params
        (if truthy h then [(''X-Payment-TxHash'', the h), (''X-Payment-Chain'', PAYMENT_CHAIN)]
         else [])
        (timeout self)) s = (r, t)"
      by (cases "request (SessionGet (base_url self @ endpoint) params
        (if truthy h then [(''X-Payment-TxHash'', the h), (''X-Payment-Chain'', PAYMENT_CHAIN)]
         else [])
        (timeout self)) s")
    from assms(1) get rq have "t = s'"
      by (auto simp: call_api_try_def Let_def split: sum.splits)
    with rq assms(2) have "r = (case rep of Reply x \<Rightarrow> Inr x | Raises e \<Rightarrow> Inl e)"
      using answered_request by blast
    with assms(1) get rq show ?thesis
      by (auto simp: call_api_try_def Let_def split: sum.splits reply.splits)
  next
    case post
    obtain r t where rq: "request (SessionPost (base_url self @ endpoint) params
        (if truthy h then [(''X-Payment-TxHash'', the h), (''X-Payment-Chain'', PAYMENT_CHAIN)]
         else [])
        (timeout self)) s = (r, t)"
      by (cases "request (SessionPost (base_url self @ endpoint) params
        (if truthy h then [(''X-Payment-TxHash'', the h), (''X-Payment-Chain'', PAYMENT_CHAIN)]
         else [])
        (timeout self)) s")
    from assms(1) post rq have "t = s'"
      by (auto simp: call_api_try_def Let_def split: sum.splits)
    with rq assms(2) have "r = (case rep of Reply x \<Rightarrow> Inr x | Raises e \<Rightarrow> Inl e)"
      using answered_request by blast
    with assms(1) post rq show ?thesis
      by (auto simp: call_api_try_def Let_def split: sum.splits reply.splits)
  next
    case other
    with assms(1) have "s' = s"
      by (auto simp: call_api_try_def Let_def)
    with assms(2) show ?thesis
      using answered_same by blast
  qed
qed

text \<open>The branches on the response raise nothing that the \<^verbatim>\<open>except\<close> clauses catch.\<close>

lemma handle_response_exn:
  "handle_response str_of h r = Inl e \<Longrightarrow> e = AttributeError"
  by (auto simp: handle_response_def attr_get_def Let_def fallback_details_def
      split: if_splits option.splits sum.splits jvalue.splits)

lemma call_api_session:
  "snd (call_api str_of self endpoint params method h s)
     = snd (call_api_try str_of self endpoint params method h s)"
  by (auto simp: call_api_def split: prod.splits sum.splits exn.splits)

lemma call_api_reply:
  assumes "call_api str_of self endpoint params method h s = (res, s')"
    and "answered s s' (Reply r)"
  shows "res = handle_response str_of h r"
proof -
  obtain res0 t where t: "call_api_try str_of self endpoint params method h s = (res0, t)"
    by (cases "call_api_try str_of self endpoint params method h s")
  with assms(1) have "t = s'"
    using call_api_session [of str_of self endpoint params "method" h s] by simp
  with t assms(2) have r0: "res0 = handle_response str_of h r"
    using call_api_try_answered by fastforce
  show ?thesis
  proof (cases res0)
    case (Inl e)
    with r0 have "e = AttributeError" using handle_response_exn by metis
    with Inl t assms(1) r0 show ?thesis by (simp add: call_api_def)
  next
    case (Inr out)
    with r0 have "handle_response str_of h r = Inr out" by simp
    with Inr t assms(1) show ?thesis by (simp add: call_api_def)
  qed
qed

lemma call_api_raises:
  assumes "call_api str_of self endpoint params method h s = (res, s')"
    and "answered s s' (Raises e)"
  shows "res = (case e of
                  Timeout \<Rightarrow>
                    Inr [(''success'', JBool False),
                         (''error'', JStr (''Request timeout after '' @ str_int (timeout self)
                                            @ '' seconds''))]
                | RequestException msg \<Rightarrow>
                    Inr [(''success'', JBool False),
                         (''error'', JStr (''Request error: '' @ msg))]
                | _ \<Rightarrow> Inl e)"
proof -
  obtain res0 t where t: "call_api_try str_of self endpoint params method h s = (res0, t)"
    by (cases "call_api_try str_of self endpoint params method h s")
  with assms(1) have "t = s'"
    using call_api_session [of str_of self endpoint params "method" h s] by simp
  with t assms(2) have "res0 = Inl e"
    using call_api_try_answered by fastforce
  with t assms(1) show ?thesis
    by (cases e) (simp_all add: call_api_def)
qed

section \<open>The method check\<close>

text \<open>
  Claim C4. For every method whose upper-casing is neither \<^verbatim>\<open>GET\<close> nor \<^verbatim>\<open>POST\<close>,
  \<^verbatim>\<open>call_api\<close> returns the dict whose error is \<^verbatim>\<open>Unsupported HTTP method: \<close>
  followed by the method as given, a failure outcome, and the session it leaves is the
  session it found: no call went out.
\<close>

theorem unsupported_method_failure:
  assumes "upper method \<noteq> ''GET''" and "upper method \<noteq> ''POST''"
  shows "call_api str_of self endpoint params method h s
           = (Inr [(''success'', JBool False),
                   (''error'', JStr (''Unsupported HTTP method: '' @ method))], s)
       \<and> is_failure [(''success'', JBool False),
                      (''error'', JStr (''Unsupported HTTP method: '' @ method))]"
  using assms by (simp add: call_api_def call_api_try_def is_failure_def)

theorem unsupported_method_failure_witness:
  "upper ''Put'' \<noteq> ''GET'' \<and> upper ''Put'' \<noteq> ''POST''
   \<and> call_api str_scalar (X402Client None 30) ''/api/weather'' None ''Put'' (Some ''0xabc'')
         \<lparr>network = always (Raises Timeout), sent = []\<rparr>
       = (Inr [(''success'', JBool False),
               (''error'', JStr ''Unsupported HTTP method: Put'')],
          \<lparr>network = always (Raises Timeout), sent = []\<rparr>)"
proof -
  have g: "upper ''Put'' \<noteq> ''GET''" and p: "upper ''Put'' \<noteq> ''POST''"
    by (simp_all add: upper_def upper_char_def ascii_uppercase_def ascii_lowercase_def)
  from unsupported_method_failure [OF g p, of str_scalar "X402Client None 30"
      "''/api/weather''" None "Some ''0xabc''"
      "\<lparr>network = always (Raises Timeout), sent = []\<rparr>"]
  have "call_api str_scalar (X402Client None 30) ''/api/weather'' None ''Put'' (Some ''0xabc'')
         \<lparr>network = always (Raises Timeout), sent = []\<rparr>
       = (Inr [(''success'', JBool False),
               (''error'', JStr (''Unsupported HTTP method: '' @ ''Put''))],
          \<lparr>network = always (Raises Timeout), sent = []\<rparr>)"
    by (rule conjunct1)
  with g p show ?thesis by simp
qed

section \<open>The call that goes out\<close>

lemma call_api_sends:
  assumes "upper method = ''GET'' \<or> upper method = ''POST''"
  shows "\<exists>c. snd (call_api str_of self endpoint params method h s) = snd (request c s)"
proof (cases "upper method = ''GET''")
  case True
  have "snd (call_api_try str_of self endpoint params method h s)
      = snd (request (SessionGet (base_url self @ endpoint) params
          (if truthy h then [(''X-Payment-TxHash'', the h), (''X-Payment-Chain'', PAYMENT_CHAIN)]
           else [])
          (timeout self)) s)"
    using True by (simp add: call_api_try_def Let_def split: prod.splits sum.splits)
  then show ?thesis
    unfolding call_api_session by blast
next
  case False
  with assms have post: "upper method = ''POST''" by simp
  have "snd (call_api_try str_of self endpoint params method h s)
      = snd (request (SessionPost (base_url self @ endpoint) params
          (if truthy h then [(''X-Payment-TxHash'', the h), (''X-Payment-Chain'', PAYMENT_CHAIN)]
           else [])
          (timeout self)) s)"
    using False post by (simp add: call_api_try_def Let_def split: prod.splits sum.splits)
  then show ?thesis
    unfolding call_api_session by blast
qed

lemma call_api_cases:
  assumes "call_api str_of self endpoint params method h s = (res, s')"
  shows "(s' = s \<and> res = Inr [(''success'', JBool False),
                               (''error'', JStr (''Unsupported HTTP method: '' @ method))])
       \<or> (\<exists>rep. answered s s' rep)"
proof (cases "upper method = ''GET'' \<or> upper method = ''POST''")
  case False
  with assms show ?thesis by (simp add: call_api_def call_api_try_def)
next
  case True
  then obtain c where "snd (call_api str_of self endpoint params method h s) = snd (request c s)"
    using call_api_sends by blast
  with assms have "s' = snd (request c s)" by simp
  then have "answered s s' (network s (length (sent s)) c)"
    using request_answered [of c s "fst (request c s)" s'] by simp
  then show ?thesis by blast
qed

lemma call_api_mock_answered:
  assumes "upper method = ''GET'' \<or> upper method = ''POST''"
  shows "answered (mock_session rep)
           (snd (call_api str_of self endpoint params method h (mock_session rep))) rep"
proof -
  obtain c where "snd (call_api str_of self endpoint params method h (mock_session rep))
      = snd (request c (mock_session rep))"
    using call_api_sends [OF assms] by blast
  then show ?thesis
    by (simp add: request_def answered_def mock_session_def always_def)
qed

lemma upper_GET: "upper ''GET'' = ''GET''"
  by (simp add: upper_def upper_char_def ascii_uppercase_def ascii_lowercase_def)

section \<open>Merging the details\<close>

lemma map_of_dict_merge:
  "distinct (map fst b) \<Longrightarrow>
     map_of (dict_merge a b) k = (case map_of b k of Some v \<Rightarrow> Some v | None \<Rightarrow> map_of a k)"
proof (induction b arbitrary: a)
  case Nil
  then show ?case by (simp add: dict_merge_def)
next
  case (Cons p b)
  obtain k' v' where p: "p = (k', v')" by (cases p)
  from Cons.prems p have d: "distinct (map fst b)" and nin: "k' \<notin> fst ` set b"
    by simp_all
  have step: "dict_merge a ((k', v') # b) = dict_merge (AList.update k' v' a) b"
    by (simp add: dict_merge_def)
  have ih: "map_of (dict_merge (AList.update k' v' a) b) k
      = (case map_of b k of Some v \<Rightarrow> Some v | None \<Rightarrow> map_of (AList.update k' v' a) k)"
    by (rule Cons.IH [OF d])
  show ?case
  proof (cases "k = k'")
    case True
    with nin have "map_of b k = None" by (simp add: map_of_eq_None_iff)
    with True ih show ?thesis
      by (simp add: step p AList.update_conv')
  next
    case False
    with ih show ?thesis
      by (simp add: step p AList.update_conv' split: option.splits)
  qed
qed

lemma instructions_keys: "map fst (instructions str_of cost) = synthesized_keys"
  by (simp add: instructions_def synthesized_keys_def)

lemma distinct_synthesized_keys: "distinct synthesized_keys"
  by (simp add: synthesized_keys_def)

lemma map_of_merged_details:
  "map_of (dict_merge d (instructions str_of cost)) k
     = (case map_of (instructions str_of cost) k of Some v \<Rightarrow> Some v | None \<Rightarrow> map_of d k)"
  by (rule map_of_dict_merge) (simp add: instructions_keys distinct_synthesized_keys)

lemma instructions_None:
  "k \<notin> set synthesized_keys \<Longrightarrow> map_of (instructions str_of cost) k = None"
  by (metis instructions_keys map_of_eq_None_iff set_map)

lemma handle_response_402:
  assumes "status_code r = 402"
    and "(case json r of Some v \<Rightarrow> v | None \<Rightarrow> fallback_details) = JObj d"
  shows "handle_response str_of h r
           = Inr [(''success'', JBool False),
                  (''payment_required'', JBool True),
                  (''payment_details'',
                     JObj (dict_merge d (instructions str_of
                       (dict_get d ''amount'' (dict_get d ''required_payment'' (JStr ''unknown''))))) ),
                  (''cost_usdc'',
                     dict_get d ''amount'' (dict_get d ''required_payment'' (JStr ''unknown'')))]"
  using assms by (simp add: handle_response_def attr_get_def Let_def)

lemma handle_response_402_raises:
  assumes "status_code r = 402" and "json r = Some v" and "\<forall>d. v \<noteq> JObj d"
  shows "handle_response str_of h r = Inl AttributeError"
  using assms by (cases v) (simp_all add: handle_response_def attr_get_def Let_def)

section \<open>The payment gate\<close>

text \<open>
  Claim C1. When the answer to the call of \<^verbatim>\<open>call_api\<close> is a 402 whose body, parsed or
  replaced by the fallback payload when it does not parse, is the dict \<open>d\<close>, the outcome is
  the payment-required dict and its \<^verbatim>\<open>payment_details\<close> is \<^verbatim>\<open>{**d, **instructions}\<close>:
  the keys of \<^verbatim>\<open>instructions\<close> are the six synthesized keys, each of them has the
  synthesized value in the merge, every other key has the value it has in \<open>d\<close>, and
  \<^verbatim>\<open>payment_address\<close> and \<^verbatim>\<open>payment_chain\<close> are the constants of the client whatever
  \<open>d\<close> holds.
\<close>

theorem payment_details_merge:
  assumes "call_api str_of self endpoint params method h s = (res, s')"
    and "answered s s' (Reply r)"
    and "status_code r = 402"
    and "(case json r of Some v \<Rightarrow> v | None \<Rightarrow> fallback_details) = JObj d"
  shows "\<exists>cost pd.
           res = Inr [(''success'', JBool False),
                      (''payment_required'', JBool True),
                      (''payment_details'', JObj pd),
                      (''cost_usdc'', cost)]
         \<and> pd = dict_merge d (instructions str_of cost)
         \<and> map fst (instructions str_of cost) = synthesized_keys
         \<and> (\<forall>k v. map_of (instructions str_of cost) k = Some v \<longrightarrow> map_of pd k = Some v)
         \<and> (\<forall>k. k \<notin> set synthesized_keys \<longrightarrow> map_of pd k = map_of d k)
         \<and> map_of pd ''payment_address'' = Some (JStr PAYMENT_ADDRESS)
         \<and> map_of pd ''payment_chain'' = Some (JStr PAYMENT_CHAIN)"
proof -
  define cost where "cost = dict_get d ''amount'' (dict_get d ''required_payment'' (JStr ''unknown''))"
  define pd where "pd = dict_merge d (instructions str_of cost)"
  have "res = handle_response str_of h r"
    using assms(1,2) by (rule call_api_reply)
  then have res: "res = Inr [(''success'', JBool False), (''payment_required'', JBool True),
      (''payment_details'', JObj pd), (''cost_usdc'', cost)]"
    using handle_response_402 [OF assms(3,4)] by (simp add: cost_def pd_def)
  have win: "\<forall>k v. map_of (instructions str_of cost) k = Some v \<longrightarrow> map_of pd k = Some v"
    by (simp add: pd_def map_of_merged_details)
  have pass: "\<forall>k. k \<notin> set synthesized_keys \<longrightarrow> map_of pd k = map_of d k"
    by (simp add: pd_def map_of_merged_details instructions_None)
  have "map_of (instructions str_of cost) ''payment_address'' = Some (JStr PAYMENT_ADDRESS)"
    by (simp add: instructions_def)
  with win have addr: "map_of pd ''payment_address'' = Some (JStr PAYMENT_ADDRESS)"
    by blast
  have "map_of (instructions str_of cost) ''payment_chain'' = Some (JStr PAYMENT_CHAIN)"
    by (simp add: instructions_def)
  with win have chain: "map_of pd ''payment_chain'' = Some (JStr PAYMENT_CHAIN)"
    by blast
  from res win pass addr chain show ?thesis
    using instructions_keys [of str_of cost] pd_def by blast
qed


theorem payment_details_merge_witness:
  "answered (mock_session (Reply (mock_response 402
        (Some (JObj [(''amount'', JStr ''0.05''), (''payment_address'', JStr ''0xElsewhere''),
                     (''network'', JStr ''base-sepolia'')])) [])))
     (snd (call_api str_scalar (X402Client None 30) ''/api/weather'' None ''GET'' None
        (mock_session (Reply (mock_response 402
          (Some (JObj [(''amount'', JStr ''0.05''), (''payment_address'', JStr ''0xElsewhere''),
                       (''network'', JStr ''base-sepolia'')])) [])))))
     (Reply (mock_response 402
        (Some (JObj [(''amount'', JStr ''0.05''), (''payment_address'', JStr ''0xElsewhere''),
                     (''network'', JStr ''base-sepolia'')])) []))
   \<and> (\<exists>cost pd.
         fst (call_api str_scalar (X402Client None 30) ''/api/weather'' None ''GET'' None
           (mock_session (Reply (mock_response 402
             (Some (JObj [(''amount'', JStr ''0.05''), (''payment_address'', JStr ''0xElsewhere''),
                          (''network'', JStr ''base-sepolia'')])) []))))
           = Inr [(''success'', JBool False), (''payment_required'', JBool True),
                  (''payment_details'', JObj pd), (''cost_usdc'', cost)]
       \<and> map_of pd ''payment_address'' = Some (JStr PAYMENT_ADDRESS)
       \<and> map_of pd ''payment_chain'' = Some (JStr PAYMENT_CHAIN)
       \<and> map_of pd ''network'' = Some (JStr ''base-sepolia''))"
proof -
  let ?d = "[(''amount'', JStr ''0.05''), (''payment_address'', JStr ''0xElsewhere''),
             (''network'', JStr ''base-sepolia'')] :: unit dict"
  let ?r = "mock_response 402 (Some (JObj ?d)) []"
  let ?s = "mock_session (Reply ?r)"
  let ?call = "call_api str_scalar (X402Client None 30) ''/api/weather'' None ''GET'' None ?s"
  have call: "?call = (fst ?call, snd ?call)" by simp
  have ans: "answered ?s (snd ?call) (Reply ?r)"
    by (rule call_api_mock_answered) (simp add: upper_GET)
  have st: "status_code ?r = 402" by (simp add: mock_response_def)
  have body: "(case json ?r of Some v \<Rightarrow> v | None \<Rightarrow> fallback_details) = JObj ?d"
    by (simp add: mock_response_def)
  have key: "''network'' \<notin> set synthesized_keys" by (simp add: synthesized_keys_def)
  have nw: "map_of ?d ''network'' = Some (JStr ''base-sepolia'')" by simp
  from payment_details_merge [OF call ans st body] obtain cost pd where
      res: "fst ?call = Inr [(''success'', JBool False), (''payment_required'', JBool True),
                  (''payment_details'', JObj pd), (''cost_usdc'', cost)]"
    and pass: "\<forall>k. k \<notin> set synthesized_keys \<longrightarrow> map_of pd k = map_of ?d k"
    and addr: "map_of pd ''payment_address'' = Some (JStr PAYMENT_ADDRESS)"
    and chain: "map_of pd ''payment_chain'' = Some (JStr PAYMENT_CHAIN)"
    by (elim exE conjE)
  from pass key nw have "map_of pd ''network'' = Some (JStr ''base-sepolia'')"
    by simp
  with res addr chain have "\<exists>cost pd. fst ?call = Inr [(''success'', JBool False),
        (''payment_required'', JBool True), (''payment_details'', JObj pd), (''cost_usdc'', cost)]
      \<and> map_of pd ''payment_address'' = Some (JStr PAYMENT_ADDRESS)
      \<and> map_of pd ''payment_chain'' = Some (JStr PAYMENT_CHAIN)
      \<and> map_of pd ''network'' = Some (JStr ''base-sepolia'')"
    by (intro exI conjI)
  with ans show ?thesis by (rule conjI)
qed

lemma contains_prefix: "contains q (q @ t)"
proof (cases "q @ t")
  case Nil
  then show ?thesis by simp
next
  case (Cons c cs)
  have "take (length q) (q @ t) = q" by simp
  with Cons have "take (length q) (c # cs) = q" by simp
  with Cons show ?thesis by simp
qed

lemma contains_append: "contains q s \<Longrightarrow> contains q (p @ s)"
proof (induction p)
  case Nil
  then show ?case by simp
next
  case (Cons c p)
  then show ?case by simp
qed

lemma contains_middle: "contains q (p @ q @ t)"
  by (rule contains_append) (rule contains_prefix)

lemma contains_iff: "contains q s \<longleftrightarrow> (\<exists>p t. s = p @ q @ t)"
proof
  show "contains q s \<Longrightarrow> \<exists>p t. s = p @ q @ t"
  proof (induction s)
    case Nil
    then show ?case by simp
  next
    case (Cons c s)
    from Cons.prems consider (here) "take (length q) (c # s) = q" | (later) "contains q s"
      by auto
    then show ?case
    proof cases
      case here
      then have "c # s = [] @ q @ drop (length q) (c # s)"
        by (metis append_Nil append_take_drop_id)
      then show ?thesis by blast
    next
      case later
      with Cons.IH obtain p t where "s = p @ q @ t" by blast
      then have "c # s = (c # p) @ q @ t" by simp
      then show ?thesis by blast
    qed
  qed
next
  assume "\<exists>p t. s = p @ q @ t"
  then show "contains q s" using contains_middle by blast
qed

lemma cost_by_keys_get:
  "dict_get d ''amount'' (dict_get d ''required_payment'' (JStr ''unknown'')) = cost_by_keys d"
  by (simp add: dict_get_def cost_by_keys_def split: option.splits)

text \<open>
  Claim C2. On a 402 the reported cost, at the top level and as \<^verbatim>\<open>payment_amount\<close> of the
  details, is the string \<^verbatim>\<open>unknown\<close> when the body does not parse, and for a body that
  parses to a dict it is the cost resolved key by key: \<^verbatim>\<open>amount\<close>, else
  \<^verbatim>\<open>required_payment\<close>, else \<^verbatim>\<open>unknown\<close>.
\<close>

theorem cost_resolution:
  assumes "call_api str_of self endpoint params method h s = (res, s')"
    and "answered s s' (Reply r)"
    and "status_code r = 402"
  shows "(json r = None \<longrightarrow>
            (\<exists>pd. res = Inr [(''success'', JBool False),
                             (''payment_required'', JBool True),
                             (''payment_details'', JObj pd),
                             (''cost_usdc'', JStr ''unknown'')]
                 \<and> map_of pd ''payment_amount'' = Some (JStr ''unknown'')))
       \<and> (\<forall>d. json r = Some (JObj d) \<longrightarrow>
            (\<exists>pd. res = Inr [(''success'', JBool False),
                             (''payment_required'', JBool True),
                             (''payment_details'', JObj pd),
                             (''cost_usdc'', cost_by_keys d)]
                 \<and> map_of pd ''payment_amount'' = Some (cost_by_keys d)))"
proof -
  have res: "res = handle_response str_of h r"
    using assms(1,2) by (rule call_api_reply)
  have amount: "map_of (dict_merge d (instructions str_of c)) ''payment_amount'' = Some c" for d c
    by (simp add: map_of_merged_details) (simp add: instructions_def)
  show ?thesis
  proof (intro conjI allI impI)
    assume "json r = None"
    then have body: "(case json r of Some v \<Rightarrow> v | None \<Rightarrow> fallback_details)
        = JObj [(''amount'', JStr ''unknown''), (''address'', JStr PAYMENT_ADDRESS),
                (''chain'', JStr PAYMENT_CHAIN)]"
      by (simp add: fallback_details_def)
    have "cost_by_keys [(''amount'', JStr ''unknown''), (''address'', JStr PAYMENT_ADDRESS),
        (''chain'', JStr PAYMENT_CHAIN)] = (JStr ''unknown'' :: 'a jvalue)"
      by (simp add: cost_by_keys_def)
    with res show "\<exists>pd. res = Inr [(''success'', JBool False), (''payment_required'', JBool True),
          (''payment_details'', JObj pd), (''cost_usdc'', JStr ''unknown'')]
        \<and> map_of pd ''payment_amount'' = Some (JStr ''unknown'')"
      using handle_response_402 [OF assms(3) body, of str_of h] amount
      by (simp add: cost_by_keys_get)
  next
    fix d
    assume "json r = Some (JObj d)"
    then have body: "(case json r of Some v \<Rightarrow> v | None \<Rightarrow> fallback_details) = JObj d"
      by simp
    with res show "\<exists>pd. res = Inr [(''success'', JBool False), (''payment_required'', JBool True),
          (''payment_details'', JObj pd), (''cost_usdc'', cost_by_keys d)]
        \<and> map_of pd ''payment_amount'' = Some (cost_by_keys d)"
      using handle_response_402 [OF assms(3) body, of str_of h] amount
      by (simp add: cost_by_keys_get)
  qed
qed

lemma handle_response_Inr:
  assumes "handle_response str_of h r = Inr out"
  shows "(status_code r = 200 \<and> is_success out \<and> \<not> is_payment_required out)
       \<or> (status_code r = 402 \<and>
            (\<exists>d. out = [(''success'', JBool False),
                        (''payment_required'', JBool True),
                        (''payment_details'',
                           JObj (dict_merge d (instructions str_of (cost_by_keys d)))),
                        (''cost_usdc'', cost_by_keys d)]))
       \<or> (status_code r \<noteq> 200 \<and> status_code r \<noteq> 402
            \<and> \<not> is_success out \<and> \<not> is_payment_required out)"
proof -
  consider (ok) "status_code r = 200" | (pay) "status_code r = 402"
    | (other) "status_code r \<noteq> 200" "status_code r \<noteq> 402"
    by blast
  then show ?thesis
  proof cases
    case ok
    with assms show ?thesis
      by (auto simp: handle_response_def is_success_def is_payment_required_def)
  next
    case pay
    show ?thesis
    proof (cases "case json r of Some v \<Rightarrow> v | None \<Rightarrow> fallback_details")
      case (JObj d)
      with assms pay show ?thesis
        using handle_response_402 [OF pay JObj, of str_of h] by (auto simp: cost_by_keys_get)
    qed (use assms pay in \<open>simp_all add: handle_response_def attr_get_def\<close>)
  next
    case other
    with assms show ?thesis
      by (auto simp: handle_response_def is_success_def is_payment_required_def attr_get_def
          split: if_splits option.splits jvalue.splits)
  qed
qed

theorem cost_resolution_witness:
  "answered (mock_session (Reply (mock_response 402
        (Some (JObj [(''required_payment'', JStr ''0.02'')])) [])))
     (snd (call_api str_scalar (X402Client None 30) ''/api/weather'' None ''GET'' None
        (mock_session (Reply (mock_response 402
          (Some (JObj [(''required_payment'', JStr ''0.02'')])) [])))))
     (Reply (mock_response 402 (Some (JObj [(''required_payment'', JStr ''0.02'')])) []))
   \<and> (\<exists>pd.
         fst (call_api str_scalar (X402Client None 30) ''/api/weather'' None ''GET'' None
           (mock_session (Reply (mock_response 402
             (Some (JObj [(''required_payment'', JStr ''0.02'')])) []))))
           = Inr [(''success'', JBool False), (''payment_required'', JBool True),
                  (''payment_details'', JObj pd), (''cost_usdc'', JStr ''0.02'')]
       \<and> map_of pd ''payment_amount'' = Some (JStr ''0.02''))"
proof -
  let ?d = "[(''required_payment'', JStr ''0.02'')] :: unit dict"
  let ?r = "mock_response 402 (Some (JObj ?d)) []"
  let ?s = "mock_session (Reply ?r)"
  let ?call = "call_api str_scalar (X402Client None 30) ''/api/weather'' None ''GET'' None ?s"
  have call: "?call = (fst ?call, snd ?call)" by simp
  have ans: "answered ?s (snd ?call) (Reply ?r)"
    by (rule call_api_mock_answered) (simp add: upper_GET)
  have st: "status_code ?r = 402" by (simp add: mock_response_def)
  have js: "json ?r = Some (JObj ?d)" by (simp add: mock_response_def)
  have c: "cost_by_keys ?d = JStr ''0.02''" by (simp add: cost_by_keys_def)
  from cost_resolution [OF call ans st] have "json ?r = Some (JObj ?d) \<longrightarrow>
      (\<exists>pd. fst ?call = Inr [(''success'', JBool False), (''payment_required'', JBool True),
                  (''payment_details'', JObj pd), (''cost_usdc'', cost_by_keys ?d)]
           \<and> map_of pd ''payment_amount'' = Some (cost_by_keys ?d))"
    by (elim conjE allE)
  with js have "\<exists>pd. fst ?call = Inr [(''success'', JBool False), (''payment_required'', JBool True),
                  (''payment_details'', JObj pd), (''cost_usdc'', cost_by_keys ?d)]
           \<and> map_of pd ''payment_amount'' = Some (cost_by_keys ?d)"
    by (rule rev_mp)
  then have "\<exists>pd. fst ?call = Inr [(''success'', JBool False), (''payment_required'', JBool True),
                  (''payment_details'', JObj pd), (''cost_usdc'', JStr ''0.02'')]
           \<and> map_of pd ''payment_amount'' = Some (JStr ''0.02'')"
    unfolding c .
  with ans show ?thesis by (rule conjI)
qed

section \<open>The outcome invariant\<close>

lemma failure_is_failure: "is_failure [(''success'', JBool False), (''error'', msg)]"
  by (simp add: is_failure_def)

lemma failure_not_variant:
  "\<not> is_success [(''success'', JBool False), (''error'', msg)]"
  "\<not> is_payment_required [(''success'', JBool False), (''error'', msg)]"
  by (simp_all add: is_success_def is_payment_required_def)

lemma first_instruction_contains:
  assumes "first = ''1. Send '' @ c @ '' USDC on '' @ u @ '' to: '' @ a"
  shows "contains c first" and "contains u first" and "contains a first"
proof -
  show "contains c first"
    unfolding assms by (rule contains_middle)
  have "first = (''1. Send '' @ c @ '' USDC on '') @ u @ ('' to: '' @ a)"
    by (simp add: assms)
  then show "contains u first"
    by (simp only: contains_middle)
  have "first = (''1. Send '' @ c @ '' USDC on '' @ u @ '' to: '') @ a @ []"
    by (simp add: assms)
  then show "contains a first"
    by (simp only: contains_middle)
qed

lemma answered_unique: "answered s s' rep \<Longrightarrow> answered s s' rep' \<Longrightarrow> rep' = rep"
  by (simp add: answered_def)

lemma payment_required_instructions:
  fixes d :: "'f dict" and c :: "'f jvalue"
  assumes "out = [(''success'', JBool False), (''payment_required'', JBool True),
      (''payment_details'', JObj (dict_merge d (instructions str_of c))),
      (''cost_usdc'', c)]"
  shows "\<exists>pd cost first.
                 map_of out ''payment_details'' = Some (JObj pd)
               \<and> map_of out ''cost_usdc'' = Some cost
               \<and> map_of pd ''instructions''
                    = Some (JArr [JStr first,
                                  JStr ''2. Wait for transaction confirmation'',
                                  JStr ''3. Call this endpoint again with transaction hash''])
               \<and> first = ''1. Send '' @ format_value str_of cost @ '' USDC on ''
                            @ upper PAYMENT_CHAIN @ '' to: '' @ PAYMENT_ADDRESS
               \<and> contains (format_value str_of cost) first
               \<and> contains (upper PAYMENT_CHAIN) first
               \<and> contains PAYMENT_ADDRESS first"
proof -
  define first where "first = ''1. Send '' @ format_value str_of c @ '' USDC on ''
      @ upper PAYMENT_CHAIN @ '' to: '' @ PAYMENT_ADDRESS"
  define pd where "pd = dict_merge d (instructions str_of c)"
  have "map_of (instructions str_of c) ''instructions''
      = Some (JArr [JStr first, JStr ''2. Wait for transaction confirmation'',
                    JStr ''3. Call this endpoint again with transaction hash''])"
    by (simp add: instructions_def first_def)
  then have ins: "map_of pd ''instructions''
      = Some (JArr [JStr first, JStr ''2. Wait for transaction confirmation'',
                    JStr ''3. Call this endpoint again with transaction hash''])"
    by (simp add: pd_def map_of_merged_details)
  have a: "map_of out ''payment_details'' = Some (JObj pd)"
    by (simp add: assms pd_def)
  have b: "map_of out ''cost_usdc'' = Some c"
    by (simp add: assms)
  from a b ins first_def first_instruction_contains [OF first_def] show ?thesis
    by (intro exI conjI)
qed


lemma call_api_outcome_summary:
  assumes "call_api str_of self endpoint params method h s = (Inr out, s')"
  shows "(\<not> is_success out \<and> \<not> is_payment_required out
            \<and> (\<forall>r. answered s s' (Reply r) \<longrightarrow> status_code r \<noteq> 402))
       \<or> (is_success out \<and> \<not> is_payment_required out
            \<and> (\<exists>r. answered s s' (Reply r) \<and> status_code r = 200)
            \<and> (\<forall>r. answered s s' (Reply r) \<longrightarrow> status_code r \<noteq> 402))
       \<or> (\<not> is_success out \<and> is_payment_required out
            \<and> (\<exists>r. answered s s' (Reply r) \<and> status_code r = 402)
            \<and> (\<exists>d. out = [(''success'', JBool False),
                        (''payment_required'', JBool True),
                        (''payment_details'',
                           JObj (dict_merge d (instructions str_of (cost_by_keys d)))),
                        (''cost_usdc'', cost_by_keys d)]))"
    (is "?A \<or> ?B \<or> ?C")
proof -
  have failure: ?A if "out = [(''success'', JBool False), (''error'', msg)]"
    and "\<And>r. \<not> answered s s' (Reply r)" for msg
  proof (intro conjI allI impI)
    show "\<not> is_success out" and "\<not> is_payment_required out"
      by (simp_all add: that(1) is_success_def is_payment_required_def)
  next
    fix r assume "answered s s' (Reply r)"
    with that(2) show "status_code r \<noteq> 402" by simp
  qed
  from call_api_cases [OF assms] consider
      (unsupported) "s' = s" "Inr out = (Inr [(''success'', JBool False),
                       (''error'', JStr (''Unsupported HTTP method: '' @ method))] :: exn + 'a dict)"
    | (answer) rep where "answered s s' rep"
    by (elim disjE conjE exE)
  then show ?thesis
  proof cases
    case unsupported
    from unsupported(2) have out: "out = [(''success'', JBool False),
        (''error'', JStr (''Unsupported HTTP method: '' @ method))]"
      by (simp only: sum.inject)
    have "\<not> answered s s' (Reply r)" for r
      unfolding unsupported(1) by (rule answered_same)
    with out have ?A by (rule failure)
    then show ?thesis by (rule disjI1)
  next
    case (answer rep)
    show ?thesis
    proof (cases rep)
      case (Raises e)
      have "Inr out = (case e of
                  Timeout \<Rightarrow>
                    Inr [(''success'', JBool False),
                         (''error'', JStr (''Request timeout after '' @ str_int (timeout self)
                                            @ '' seconds''))]
                | RequestException msg \<Rightarrow>
                    Inr [(''success'', JBool False),
                         (''error'', JStr (''Request error: '' @ msg))]
                | _ \<Rightarrow> Inl e)"
        using assms answer [unfolded Raises] by (rule call_api_raises)
      then have "\<exists>msg. out = [(''success'', JBool False), (''error'', msg)]"
        by (cases e) simp_all
      then obtain msg where out: "out = [(''success'', JBool False), (''error'', msg)]" ..
      have "\<not> answered s s' (Reply r)" for r
      proof
        assume "answered s s' (Reply r)"
        with answer have "Reply r = rep" by (rule answered_unique)
        with Raises show False by simp
      qed
      with out have ?A by (rule failure)
      then show ?thesis by (rule disjI1)
    next
      case (Reply r)
      have ans: "answered s s' (Reply r)"
        using answer Reply by simp
      have uniq: "r' = r" if "answered s s' (Reply r')" for r'
        using answered_unique [OF ans that] by simp
      have hr: "handle_response str_of h r = Inr out"
        using call_api_reply [OF assms ans] by simp
      from handle_response_Inr [OF hr] consider
          (ok) "status_code r = 200" "is_success out" "\<not> is_payment_required out"
        | (pay) "status_code r = 402"
            "\<exists>d. out = [(''success'', JBool False), (''payment_required'', JBool True),
                  (''payment_details'',
                     JObj (dict_merge d (instructions str_of (cost_by_keys d)))),
                  (''cost_usdc'', cost_by_keys d)]"
        | (other) "status_code r \<noteq> 200" "status_code r \<noteq> 402"
            "\<not> is_success out" "\<not> is_payment_required out"
        by (elim disjE conjE)
      then show ?thesis
      proof cases
        case ok
        have n: "\<forall>r'. answered s s' (Reply r') \<longrightarrow> status_code r' \<noteq> 402"
        proof (intro allI impI)
          fix r' assume "answered s s' (Reply r')"
          then have "r' = r" by (rule uniq)
          with ok(1) show "status_code r' \<noteq> 402" by simp
        qed
        have e: "\<exists>r. answered s s' (Reply r) \<and> status_code r = 200"
          using ans ok(1) by (intro exI conjI)
        from ok(2,3) e n have ?B by (intro conjI)
        then show ?thesis by (intro disjI2 disjI1)
      next
        case pay
        from pay(2) obtain d where out: "out = [(''success'', JBool False),
            (''payment_required'', JBool True),
            (''payment_details'', JObj (dict_merge d (instructions str_of (cost_by_keys d)))),
            (''cost_usdc'', cost_by_keys d)]" ..
        have a: "\<not> is_success out" and b: "is_payment_required out"
          by (simp_all add: out is_success_def is_payment_required_def)
        have e: "\<exists>r. answered s s' (Reply r) \<and> status_code r = 402"
          using ans pay(1) by (intro exI conjI)
        from a b e pay(2) have ?C by (intro conjI)
        then show ?thesis by (intro disjI2)
      next
        case other
        have n: "\<forall>r'. answered s s' (Reply r') \<longrightarrow> status_code r' \<noteq> 402"
        proof (intro allI impI)
          fix r' assume "answered s s' (Reply r')"
          then have "r' = r" by (rule uniq)
          with other(2) show "status_code r' \<noteq> 402" by simp
        qed
        from other(3,4) n have ?A by (intro conjI)
        then show ?thesis by (rule disjI1)
      qed
    qed
  qed
qed


text \<open>
  Claim C3. For every dict that \<^verbatim>\<open>call_api\<close> returns: it is not both a success and a
  payment-required outcome; it is a success only when the call was answered with status
  200; when it is payment-required, \<^verbatim>\<open>success\<close> is false, the call was answered with
  status 402, and \<^verbatim>\<open>instructions\<close> in the details is a list of three strings, the
  fixed second and third steps after a first step that contains the formatted cost, the
  upper-cased chain and the payment address; and every returned answer to a 402, parsed or
  not, is payment-required.
\<close>

theorem outcome_invariant:
  assumes "call_api str_of self endpoint params method h s = (Inr out, s')"
  shows "\<not> (is_success out \<and> is_payment_required out)
       \<and> (is_success out \<longrightarrow> (\<exists>r. answered s s' (Reply r) \<and> status_code r = 200))
       \<and> (is_payment_required out \<longrightarrow>
            map_of out ''success'' = Some (JBool False)
          \<and> (\<exists>r. answered s s' (Reply r) \<and> status_code r = 402)
          \<and> (\<exists>pd cost first.
                 map_of out ''payment_details'' = Some (JObj pd)
               \<and> map_of out ''cost_usdc'' = Some cost
               \<and> map_of pd ''instructions''
                    = Some (JArr [JStr first,
                                  JStr ''2. Wait for transaction confirmation'',
                                  JStr ''3. Call this endpoint again with transaction hash''])
               \<and> first = ''1. Send '' @ format_value str_of cost @ '' USDC on ''
                            @ upper PAYMENT_CHAIN @ '' to: '' @ PAYMENT_ADDRESS
               \<and> contains (format_value str_of cost) first
               \<and> contains (upper PAYMENT_CHAIN) first
               \<and> contains PAYMENT_ADDRESS first))
       \<and> (\<forall>r. answered s s' (Reply r) \<and> status_code r = 402 \<longrightarrow> is_payment_required out)"
    (is "?never \<and> ?succ \<and> (_ \<longrightarrow> ?false \<and> ?paid \<and> ?steps) \<and> ?always")
proof -
  from call_api_outcome_summary [OF assms] consider
      (failure) "\<not> is_success out" "\<not> is_payment_required out"
        "\<forall>r. answered s s' (Reply r) \<longrightarrow> status_code r \<noteq> 402"
    | (success) "is_success out" "\<not> is_payment_required out"
        "\<exists>r. answered s s' (Reply r) \<and> status_code r = 200"
        "\<forall>r. answered s s' (Reply r) \<longrightarrow> status_code r \<noteq> 402"
    | (payment) "\<not> is_success out" "is_payment_required out"
        "\<exists>r. answered s s' (Reply r) \<and> status_code r = 402"
        "\<exists>d. out = [(''success'', JBool False), (''payment_required'', JBool True),
                (''payment_details'',
                   JObj (dict_merge d (instructions str_of (cost_by_keys d)))),
                (''cost_usdc'', cost_by_keys d)]"
    by (elim disjE conjE)
  then show ?thesis
  proof cases
    case failure
    from failure(3) have ?always by blast
    with failure(1,2) show ?thesis by simp
  next
    case success
    from success(4) have ?always by blast
    with success(1,2,3) show ?thesis by simp
  next
    case payment
    from payment(4) obtain d where out: "out = [(''success'', JBool False),
        (''payment_required'', JBool True),
        (''payment_details'', JObj (dict_merge d (instructions str_of (cost_by_keys d)))),
        (''cost_usdc'', cost_by_keys d)]" ..
    have f: ?false by (simp add: out)
    have st: ?steps using out by (rule payment_required_instructions)
    from payment(2) have a: ?always by simp
    from payment(1) have n: ?never by simp
    from payment(1) have su: ?succ by simp
    from f payment(3) st have c: "?false \<and> ?paid \<and> ?steps" by (intro conjI)
    have imp: "is_payment_required out \<longrightarrow> ?false \<and> ?paid \<and> ?steps"
      by (rule impI) (rule c)
    show ?thesis
      by (rule conjI [OF n conjI [OF su conjI [OF imp a]]])
  qed
qed

theorem outcome_invariant_witness:
  "\<exists>out s' pd first.
      call_api str_scalar (X402Client None 30) ''/api/weather''
          (Some [(''city'', JStr ''Paris'')]) ''GET'' None
          (mock_session (Reply (mock_response 402 (Some (JObj [(''amount'', JStr ''0.03'')])) [])))
        = (Inr out, s')
    \<and> is_payment_required out \<and> \<not> is_success out
    \<and> map_of out ''payment_details'' = Some (JObj pd)
    \<and> map_of pd ''instructions''
         = Some (JArr [JStr first,
                       JStr ''2. Wait for transaction confirmation'',
                       JStr ''3. Call this endpoint again with transaction hash''])
    \<and> contains ''0.03'' first \<and> contains (upper PAYMENT_CHAIN) first"
proof -
  let ?d = "[(''amount'', JStr ''0.03'')] :: unit dict"
  let ?r = "mock_response 402 (Some (JObj ?d)) []"
  let ?s = "mock_session (Reply ?r)"
  let ?call = "call_api str_scalar (X402Client None 30) ''/api/weather''
      (Some [(''city'', JStr ''Paris'')]) ''GET'' None ?s"
  have pair: "?call = (fst ?call, snd ?call)" by simp
  have ans: "answered ?s (snd ?call) (Reply ?r)"
    by (rule call_api_mock_answered) (simp add: upper_GET)
  have st: "status_code ?r = 402" by (simp add: mock_response_def)
  have body: "(case json ?r of Some v \<Rightarrow> v | None \<Rightarrow> fallback_details) = JObj ?d"
    by (simp add: mock_response_def)
  have "fst ?call = handle_response str_scalar None ?r"
    using pair ans by (rule call_api_reply)
  then obtain out where out: "fst ?call = Inr out"
    using handle_response_402 [OF st body, of str_scalar None] by simp
  with pair have call: "?call = (Inr out, snd ?call)" by simp
  note inv = outcome_invariant [OF call]
  from inv ans st have pr: "is_payment_required out" by blast
  with inv have ns: "\<not> is_success out" by blast
  from inv pr obtain pd cost first where
      pd: "map_of out ''payment_details'' = Some (JObj pd)"
    and cost: "map_of out ''cost_usdc'' = Some cost"
    and ins: "map_of pd ''instructions''
             = Some (JArr [JStr first,
                           JStr ''2. Wait for transaction confirmation'',
                           JStr ''3. Call this endpoint again with transaction hash''])"
    and c1: "contains (format_value str_scalar cost) first"
    and c2: "contains (upper PAYMENT_CHAIN) first"
    by blast
  have "fst ?call = Inr [(''success'', JBool False), (''payment_required'', JBool True),
      (''payment_details'', JObj (dict_merge ?d (instructions str_scalar
          (dict_get ?d ''amount'' (dict_get ?d ''required_payment'' (JStr ''unknown'')))))),
      (''cost_usdc'', dict_get ?d ''amount'' (dict_get ?d ''required_payment'' (JStr ''unknown'')))]"
    using \<open>fst ?call = handle_response str_scalar None ?r\<close>
      handle_response_402 [OF st body, of str_scalar None] by simp
  with out have "map_of out ''cost_usdc'' = Some (JStr ''0.03'')"
    by (auto simp: dict_get_def)
  with cost have "cost = JStr ''0.03''" by simp
  with c1 have c1': "contains ''0.03'' first" by (simp add: format_value_def)
  from call pr ns pd ins c1' c2 show ?thesis by (intro exI conjI)
qed

section \<open>The branches on the status code\<close>

lemma upper_POST: "upper ''POST'' = ''POST''"
  by (simp add: upper_def upper_char_def ascii_uppercase_def ascii_lowercase_def)

lemma str_int_30: "str_int 30 = ''30''"
  by (simp add: str_int_def digit_def)

lemma str_int_404: "str_int 404 = ''404''"
  by (simp add: str_int_def digit_def)

text \<open>
  Claim C5, as the code has it. When the call is answered with status 200 the outcome is the
  success dict: \<^verbatim>\<open>data\<close> is the parsed body, or \<^verbatim>\<open>{"text": <raw text>}\<close> when the body
  does not parse, and \<^verbatim>\<open>payment_status\<close> is \<^verbatim>\<open>completed\<close> when the payment proof is a
  non-empty string and \<^verbatim>\<open>free\<close> when it is \<^verbatim>\<open>None\<close> or the empty string, whatever the
  body holds.
\<close>

theorem success_outcome:
  assumes "call_api str_of self endpoint params method h s = (res, s')"
    and "answered s s' (Reply r)"
    and "status_code r = 200"
  shows "res = Inr [(''success'', JBool True),
                    (''data'', case json r of
                                 Some v \<Rightarrow> v
                               | None \<Rightarrow> JObj [(''text'', JStr (resp_text r))]),
                    (''payment_status'',
                       JStr (if h = None \<or> h = Some [] then ''free'' else ''completed''))]"
proof -
  have "res = handle_response str_of h r"
    using assms(1,2) by (rule call_api_reply)
  with assms(3) show ?thesis
    by (cases h) (simp_all add: handle_response_def truthy_def)
qed

theorem success_outcome_witness:
  "answered (mock_session (Reply (mock_response 200 None ''sunny'')))
     (snd (call_api str_scalar (X402Client None 30) ''/api/weather'' None ''GET'' (Some ''0xabc'')
        (mock_session (Reply (mock_response 200 None ''sunny'')))))
     (Reply (mock_response 200 None ''sunny''))
   \<and> fst (call_api str_scalar (X402Client None 30) ''/api/weather'' None ''GET'' (Some ''0xabc'')
        (mock_session (Reply (mock_response 200 None ''sunny''))))
       = Inr [(''success'', JBool True),
              (''data'', JObj [(''text'', JStr ''sunny'')]),
              (''payment_status'', JStr ''completed'')]"
proof -
  let ?r = "mock_response 200 None ''sunny'' :: unit response"
  let ?s = "mock_session (Reply ?r)"
  let ?call = "call_api str_scalar (X402Client None 30) ''/api/weather'' None ''GET''
      (Some ''0xabc'') ?s"
  have pair: "?call = (fst ?call, snd ?call)" by simp
  have ans: "answered ?s (snd ?call) (Reply ?r)"
    by (rule call_api_mock_answered) (simp add: upper_GET)
  have st: "status_code ?r = 200" by (simp add: mock_response_def)
  from success_outcome [OF pair ans st] have "fst ?call = Inr [(''success'', JBool True),
              (''data'', JObj [(''text'', JStr ''sunny'')]),
              (''payment_status'', JStr ''completed'')]"
    by (simp add: mock_response_def)
  with ans show ?thesis by (rule conjI)
qed

text \<open>
  Claim C5 as stated fails for a proof that is supplied and empty: with
  \<^verbatim>\<open>payment_tx_hash=""\<close> the status of a 200 is \<^verbatim>\<open>free\<close>, not \<^verbatim>\<open>completed\<close>.
\<close>

theorem empty_proof_counterexample:
  "fst (call_api str_scalar (X402Client None 30) ''/api/weather'' None ''GET'' (Some [])
         (mock_session (Reply (mock_response 200 (Some (JObj [])) ''{}''))))
     = Inr [(''success'', JBool True), (''data'', JObj []), (''payment_status'', JStr ''free'')]"
proof -
  let ?r = "mock_response 200 (Some (JObj [])) ''{}'' :: unit response"
  let ?s = "mock_session (Reply ?r)"
  let ?call = "call_api str_scalar (X402Client None 30) ''/api/weather'' None ''GET''
      (Some []) ?s"
  have pair: "?call = (fst ?call, snd ?call)" by simp
  have ans: "answered ?s (snd ?call) (Reply ?r)"
    by (rule call_api_mock_answered) (simp add: upper_GET)
  have "fst ?call = handle_response str_scalar (Some []) ?r"
    using pair ans by (rule call_api_reply)
  then show ?thesis
    by (simp add: handle_response_def mock_response_def truthy_def)
qed

text \<open>
  Claim C6. For a client constructed with timeout \<open>t\<close>: when the request raises
  \<^verbatim>\<open>requests.Timeout\<close>, \<^verbatim>\<open>call_api\<close> returns the failure dict with the error
  \<^verbatim>\<open>Request timeout after <t> seconds\<close>; when it raises any other
  \<^verbatim>\<open>requests.RequestException\<close>, it returns the failure dict with the error
  \<^verbatim>\<open>Request error: \<close> followed by the message of the exception.
\<close>

theorem request_exceptions_returned:
  assumes "call_api str_of (X402Client b t) endpoint params method h s = (res, s')"
  shows "(answered s s' (Raises Timeout) \<longrightarrow>
            res = Inr [(''success'', JBool False),
                       (''error'', JStr (''Request timeout after '' @ str_int t @ '' seconds''))])
       \<and> (\<forall>msg. answered s s' (Raises (RequestException msg)) \<longrightarrow>
            res = Inr [(''success'', JBool False),
                       (''error'', JStr (''Request error: '' @ msg))])"
proof (intro conjI allI impI)
  assume "answered s s' (Raises Timeout)"
  with assms show "res = Inr [(''success'', JBool False),
      (''error'', JStr (''Request timeout after '' @ str_int t @ '' seconds''))]"
    using call_api_raises [of str_of "X402Client b t" endpoint params "method" h s res s' Timeout]
    by (simp add: X402Client_def)
next
  fix msg
  assume "answered s s' (Raises (RequestException msg))"
  with assms show "res = Inr [(''success'', JBool False),
      (''error'', JStr (''Request error: '' @ msg))]"
    using call_api_raises [of str_of "X402Client b t" endpoint params "method" h s res s'
        "RequestException msg"]
    by simp
qed

theorem request_exceptions_returned_witness:
  "answered (mock_session (Raises Timeout))
     (snd (call_api str_scalar (X402Client None 30) ''/api/test'' None ''POST'' None
        (mock_session (Raises Timeout))))
     (Raises Timeout)
   \<and> fst (call_api str_scalar (X402Client None 30) ''/api/test'' None ''POST'' None
        (mock_session (Raises Timeout)))
       = Inr [(''success'', JBool False),
              (''error'', JStr ''Request timeout after 30 seconds'')]"
proof -
  let ?s = "mock_session (Raises Timeout) :: unit session"
  let ?call = "call_api str_scalar (X402Client None 30) ''/api/test'' None ''POST'' None ?s"
  have pair: "?call = (fst ?call, snd ?call)" by simp
  have ans: "answered ?s (snd ?call) (Raises Timeout)"
    by (rule call_api_mock_answered) (simp add: upper_POST)
  from request_exceptions_returned [OF pair] ans
  have "fst ?call = Inr [(''success'', JBool False),
      (''error'', JStr (''Request timeout after '' @ str_int 30 @ '' seconds''))]"
    by (elim conjE) (rule mp)
  then have "fst ?call = Inr [(''success'', JBool False),
      (''error'', JStr ''Request timeout after 30 seconds'')]"
    by (simp add: str_int_30)
  with ans show ?thesis by (rule conjI)
qed


text \<open>
  Claim C7, as the code has it. When the call is answered with a status other than 200, 402,
  400, 429 and 500, and the body does not parse, the outcome is the failure dict with the
  error \<^verbatim>\<open>HTTP <code>: \<close> followed by the first 200 characters of the raw text; when the
  body parses to a dict, the error is the value of its \<^verbatim>\<open>error\<close> key if it has one and
  \<^verbatim>\<open>HTTP <code>\<close> otherwise.
\<close>

theorem other_status_failure:
  assumes "call_api str_of self endpoint params method h s = (res, s')"
    and "answered s s' (Reply r)"
    and "status_code r \<notin> {200, 402, 400, 429, 500}"
  shows "(json r = None \<longrightarrow>
            res = Inr [(''success'', JBool False),
                       (''error'', JStr (''HTTP '' @ str_int (status_code r) @ '': ''
                                          @ take 200 (resp_text r)))])
       \<and> (\<forall>d. json r = Some (JObj d) \<longrightarrow>
            res = Inr [(''success'', JBool False),
                       (''error'', case map_of d ''error'' of
                                     Some v \<Rightarrow> v
                                   | None \<Rightarrow> JStr (''HTTP '' @ str_int (status_code r)))])"
proof -
  have res: "res = handle_response str_of h r"
    using assms(1,2) by (rule call_api_reply)
  from assms(3) have st: "status_code r \<noteq> 200" "status_code r \<noteq> 402" "status_code r \<noteq> 400"
      "status_code r \<noteq> 429" "status_code r \<noteq> 500"
    by simp_all
  show ?thesis
  proof (intro conjI allI impI)
    assume "json r = None"
    with st show "res = Inr [(''success'', JBool False),
        (''error'', JStr (''HTTP '' @ str_int (status_code r) @ '': '' @ take 200 (resp_text r)))]"
      by (simp add: res handle_response_def)
  next
    fix d
    assume "json r = Some (JObj d)"
    with st show "res = Inr [(''success'', JBool False),
        (''error'', case map_of d ''error'' of
                      Some v \<Rightarrow> v
                    | None \<Rightarrow> JStr (''HTTP '' @ str_int (status_code r)))]"
      by (simp add: res handle_response_def attr_get_def dict_get_def split: option.splits)
  qed
qed

theorem other_status_failure_witness:
  "answered (mock_session (Reply (mock_response 404 None ''Not Found'')))
     (snd (call_api str_scalar (X402Client None 30) ''/api/weather'' None ''GET'' None
        (mock_session (Reply (mock_response 404 None ''Not Found'')))))
     (Reply (mock_response 404 None ''Not Found''))
   \<and> fst (call_api str_scalar (X402Client None 30) ''/api/weather'' None ''GET'' None
        (mock_session (Reply (mock_response 404 None ''Not Found''))))
       = Inr [(''success'', JBool False), (''error'', JStr ''HTTP 404: Not Found'')]"
proof -
  let ?r = "mock_response 404 None ''Not Found'' :: unit response"
  let ?s = "mock_session (Reply ?r)"
  let ?call = "call_api str_scalar (X402Client None 30) ''/api/weather'' None ''GET'' None ?s"
  have pair: "?call = (fst ?call, snd ?call)" by simp
  have ans: "answered ?s (snd ?call) (Reply ?r)"
    by (rule call_api_mock_answered) (simp add: upper_GET)
  have st: "status_code ?r \<notin> {200, 402, 400, 429, 500}" by (simp add: mock_response_def)
  have js: "json ?r = None" by (simp add: mock_response_def)
  from other_status_failure [OF pair ans st] js
  have "fst ?call = Inr [(''success'', JBool False),
      (''error'', JStr (''HTTP '' @ str_int (status_code ?r) @ '': '' @ take 200 (resp_text ?r)))]"
    by (elim conjE) (rule mp)
  then have "fst ?call = Inr [(''success'', JBool False), (''error'', JStr ''HTTP 404: Not Found'')]"
    by (simp add: mock_response_def str_int_404)
  with ans show ?thesis by (rule conjI)
qed

text \<open>
  Claim C7 as stated fails for a body that parses to a value other than a dict: a 404 whose
  body is the JSON list \<^verbatim>\<open>[]\<close> parses and has no \<^verbatim>\<open>error\<close> field, and
  \<^verbatim>\<open>call_api\<close> raises \<^verbatim>\<open>AttributeError\<close> instead of returning a failure.
\<close>

theorem non_object_body_counterexample:
  "fst (call_api str_scalar (X402Client None 30) ''/api/weather'' None ''GET'' None
         (mock_session (Reply (mock_response 404 (Some (JArr [])) ''[]''))))
     = Inl AttributeError"
proof -
  let ?r = "mock_response 404 (Some (JArr [])) ''[]'' :: unit response"
  let ?s = "mock_session (Reply ?r)"
  let ?call = "call_api str_scalar (X402Client None 30) ''/api/weather'' None ''GET'' None ?s"
  have pair: "?call = (fst ?call, snd ?call)" by simp
  have ans: "answered ?s (snd ?call) (Reply ?r)"
    by (rule call_api_mock_answered) (simp add: upper_GET)
  have "fst ?call = handle_response str_scalar None ?r"
    using pair ans by (rule call_api_reply)
  then show ?thesis
    by (simp add: handle_response_def mock_response_def attr_get_def)
qed

section \<open>Search and lookup over the discovery result\<close>

lemma contains_Nil: "contains [] s"
  by (cases s) simp_all

lemma lower_Nil: "lower [] = []"
  by (simp add: lower_def)

lemma lower_eq_Nil: "lower s = [] \<longleftrightarrow> s = []"
  by (simp add: lower_def)

lemma search_services_result:
  assumes "discover_services self s = (Inr v, s')"
  shows "search_services self q s
           = ((case iterate v of Inl e \<Rightarrow> Inl e | Inr svcs \<Rightarrow> filter_services (lower q) svcs), s')"
  using assms by (simp add: search_services_def Let_def split: sum.splits)

lemma search_services_raises:
  assumes "discover_services self s = (Inl e, s')"
  shows "search_services self q s = (Inl e, s')"
  using assms by (simp add: search_services_def)

lemma iterate_exn: "iterate v = Inl e \<Longrightarrow> is_Exception e"
  by (cases v) (auto simp: iterate_def is_Exception_def)

lemma find_service_exn: "find_service name svcs = Inl e \<Longrightarrow> is_Exception e"
proof (induction svcs)
  case Nil
  then show ?case by simp
next
  case (Cons svc svcs)
  show ?case
  proof (cases "attr_get svc ''name'' (JStr [])")
    case (Inl a)
    then have "a = AttributeError"
      by (cases svc) (simp_all add: attr_get_def)
    with Inl Cons.prems show ?thesis by (simp add: is_Exception_def)
  next
    case n: (Inr n)
    show ?thesis
    proof (cases "str_lower n")
      case (Inl a)
      then have "a = AttributeError"
        by (cases n) (simp_all add: str_lower_def)
      with Inl n Cons.prems show ?thesis by (simp add: is_Exception_def)
    next
      case (Inr nm)
      with n Cons show ?thesis by (simp split: if_splits)
    qed
  qed
qed

lemma get_service_details_result:
  assumes "discover_services self s = (Inr v, s')"
  shows "get_service_details self name s
           = ((case iterate v of
                 Inl e \<Rightarrow> Inr None
               | Inr svcs \<Rightarrow> (case find_service name svcs of Inl e \<Rightarrow> Inr None | Inr f \<Rightarrow> Inr f)), s')"
proof (cases "iterate v")
  case (Inl e)
  with assms iterate_exn [OF Inl] show ?thesis
    by (simp add: get_service_details_def get_service_details_try_def)
next
  case svcs: (Inr svcs)
  show ?thesis
  proof (cases "find_service name svcs")
    case (Inl e)
    with assms svcs find_service_exn [OF Inl] show ?thesis
      by (simp add: get_service_details_def get_service_details_try_def)
  next
    case (Inr f)
    with assms svcs show ?thesis
      by (simp add: get_service_details_def get_service_details_try_def)
  qed
qed

lemma get_service_details_raises:
  assumes "discover_services self s = (Inl e, s')"
  shows "get_service_details self name s = (if is_Exception e then Inr None else Inl e, s')"
  using assms by (simp add: get_service_details_def get_service_details_try_def)

lemma get_service_details_no_Exception:
  "fst (get_service_details self name s) = Inl e \<Longrightarrow> \<not> is_Exception e"
  by (auto simp: get_service_details_def split: prod.splits sum.splits if_splits)

lemma has_str_name_name:
  assumes "has_str_name svc"
  shows "\<exists>d. svc = JObj d \<and> attr_get svc ''name'' (JStr []) = Inr (JStr (text_field d ''name''))"
proof (cases svc)
  case (JObj d)
  with assms have "str_field d ''name''" by (simp add: has_str_name_def)
  then have "dict_get d ''name'' (JStr []) = JStr (text_field d ''name'')"
    by (auto simp: str_field_def dict_get_def text_field_def is_str_def
        split: option.splits jvalue.splits)
  with JObj show ?thesis by (simp add: attr_get_def)
qed (use assms in \<open>simp_all add: has_str_name_def\<close>)

lemma matches_empty:
  assumes "has_str_name svc"
  shows "matches [] svc = Inr True"
  using has_str_name_name [OF assms]
  by (auto simp: matches_def str_lower_def contains_Nil)

lemma filter_services_empty:
  "list_all has_str_name svcs \<Longrightarrow> filter_services [] svcs = Inr svcs"
  by (induction svcs) (simp_all add: matches_empty)

lemma find_service_names:
  "list_all has_str_name svcs \<Longrightarrow>
     find_service name svcs = Inr (find (\<lambda>svc. name_lower svc = lower name) svcs)"
proof (induction svcs)
  case Nil
  then show ?case by simp
next
  case (Cons svc svcs)
  then have "has_str_name svc" by simp
  from has_str_name_name [OF this] obtain d where
      d: "svc = JObj d" "attr_get svc ''name'' (JStr []) = Inr (JStr (text_field d ''name''))"
    by blast
  with Cons show ?case
    by (simp add: str_lower_def name_lower_def)
qed

lemma any_tag_strs:
  "list_all is_str ts \<Longrightarrow>
     any_tag q ts
       = Inr (list_ex (\<lambda>tag. contains q (lower tag))
                (map (\<lambda>t. case t of JStr s \<Rightarrow> s | _ \<Rightarrow> []) ts))"
proof (induction ts)
  case Nil
  then show ?case by simp
next
  case (Cons t ts)
  then obtain s where "t = JStr s"
    by (cases t) (simp_all add: is_str_def)
  with Cons show ?case by (simp add: str_lower_def)
qed


lemma str_field_get:
  "str_field d k \<Longrightarrow> dict_get d k (JStr []) = JStr (text_field d k)"
  by (auto simp: str_field_def dict_get_def text_field_def is_str_def
      split: option.splits jvalue.splits)

lemma tags_field_get:
  assumes "tags_field d"
  shows "\<exists>ts. dict_get d ''tags'' (JArr []) = JArr ts \<and> list_all is_str ts
             \<and> tag_list d = map (\<lambda>t. case t of JStr s \<Rightarrow> s | _ \<Rightarrow> []) ts"
proof (cases "map_of d ''tags''")
  case None
  then show ?thesis by (simp add: dict_get_def tag_list_def)
next
  case (Some v)
  with assms obtain ts where "v = JArr ts" "list_all is_str ts"
    by (cases v) (simp_all add: tags_field_def)
  with Some show ?thesis by (simp add: dict_get_def tag_list_def)
qed

lemma matches_service:
  assumes "is_service svc"
  shows "matches q svc = Inr (service_matches q svc)"
proof -
  from assms obtain d where svc: "svc = JObj d"
    and n: "str_field d ''name''" and ds: "str_field d ''description''" and t: "tags_field d"
    by (cases svc) (simp_all add: is_service_def)
  from tags_field_get [OF t] obtain ts where
      ts: "dict_get d ''tags'' (JArr []) = JArr ts" "list_all is_str ts"
        "tag_list d = map (\<lambda>t. case t of JStr s \<Rightarrow> s | _ \<Rightarrow> []) ts"
    by blast
  show ?thesis
    by (simp add: svc matches_def attr_get_def str_field_get [OF n] str_field_get [OF ds]
        str_lower_def ts(1) iterate_def any_tag_strs [OF ts(2)] service_matches_def ts(3))
qed

lemma filter_services_services:
  "list_all is_service svcs \<Longrightarrow>
     filter_services q svcs = Inr (filter (service_matches q) svcs)"
  by (induction svcs) (simp_all add: matches_service)

lemma is_service_has_str_name: "is_service svc \<Longrightarrow> has_str_name svc"
  by (cases svc) (simp_all add: is_service_def has_str_name_def)

lemma list_all_has_str_name: "list_all is_service svcs \<Longrightarrow> list_all has_str_name svcs"
  by (induction svcs) (simp_all add: is_service_has_str_name)

text \<open>
  Claim C8. When discovery returns the list \<open>svcs\<close>: the search for the empty string returns
  the whole list in its order (every service being a dict whose name, if it has one, is a
  string); on services of the data model the search for \<open>q\<close> returns exactly the services
  that the specification's match keeps, in the order of discovery; every list the search
  returns is the discovery list filtered by the condition of the code, order preserved; and
  a second search, over the same discovery result, returns the same as the first.
\<close>

theorem search_stable_filter:
  assumes "discover_services self s = (Inr (JArr svcs), s')"
  shows "(list_all has_str_name svcs \<longrightarrow> search_services self [] s = (Inr svcs, s'))
       \<and> (list_all is_service svcs \<longrightarrow>
            (\<forall>q. search_services self q s
                   = (Inr (filter (service_matches (lower q)) svcs), s')))
       \<and> (\<forall>q rs s''. search_services self q s = (Inr rs, s'') \<longrightarrow>
            s'' = s' \<and> rs = filter (\<lambda>svc. matches (lower q) svc = Inr True) svcs)
       \<and> (\<forall>q t t'. discover_services self t = (Inr (JArr svcs), t') \<longrightarrow>
            fst (search_services self q t) = fst (search_services self q s))"
proof -
  have whole: "list_all has_str_name svcs \<longrightarrow> search_services self [] s = (Inr svcs, s')"
    by (simp add: search_services_result [OF assms] iterate_def lower_Nil filter_services_empty)
  have spec: "list_all is_service svcs \<longrightarrow>
      (\<forall>q. search_services self q s = (Inr (filter (service_matches (lower q)) svcs), s'))"
    by (simp add: search_services_result [OF assms] iterate_def filter_services_services)
  have kept: "ys = filter (\<lambda>svc. matches p svc = Inr True) xs"
    if "filter_services p xs = Inr ys" for p and xs ys :: "'a jvalue list"
    using that by (induction xs arbitrary: ys) (auto split: sum.splits if_splits)
  have stable: "\<forall>q rs s''. search_services self q s = (Inr rs, s'') \<longrightarrow>
      s'' = s' \<and> rs = filter (\<lambda>svc. matches (lower q) svc = Inr True) svcs"
  proof (intro allI impI)
    fix q rs s''
    assume "search_services self q s = (Inr rs, s'')"
    then have f: "filter_services (lower q) svcs = Inr rs" and "s'' = s'"
      by (simp_all add: search_services_result [OF assms] iterate_def)
    with kept [OF f]
    show "s'' = s' \<and> rs = filter (\<lambda>svc. matches (lower q) svc = Inr True) svcs"
      by simp
  qed
  have again: "\<forall>q t t'. discover_services self t = (Inr (JArr svcs), t') \<longrightarrow>
      fst (search_services self q t) = fst (search_services self q s)"
    by (simp add: search_services_result [OF assms] search_services_result)
  from whole spec stable again show ?thesis by (intro conjI)
qed


lemma discover_services_mock:
  assumes "\<not> (400 \<le> code \<and> code < 600)" and "py_len v = Inr n"
  shows "fst (discover_services self (mock_session (Reply (mock_response code (Some v) txt))))
           = Inr v"
  using assms
  by (auto simp: discover_services_def request_def mock_session_def always_def
      raise_for_status_def mock_response_def)

lemmas fold_defs =
  lower_def lower_char_def ascii_uppercase_def ascii_lowercase_def
  latin1_uppercase_def latin1_lowercase_def

lemmas service_defs =
  is_service_def str_field_def tags_field_def is_str_def has_str_name_def
  service_matches_def text_field_def tag_list_def name_lower_def has_name_def


theorem search_stable_filter_witness:
  "discover_services (X402Client None 30)
       (mock_session (Reply (mock_response 200
          (Some (JArr [JObj [(''name'', JStr ''Weather API'' :: unit jvalue), (''description'', JStr ''clouds''),
                            (''tags'', JArr [])],
                       JObj [(''name'', JStr ''Misc API''), (''tags'', JArr [JStr ''Climate''])],
                       JObj [(''name'', JStr ''Crypto API''), (''description'', JStr ''bitcoin'')]]))
          [])))
     = (Inr (JArr [JObj [(''name'', JStr ''Weather API''), (''description'', JStr ''clouds''),
                         (''tags'', JArr [])],
                   JObj [(''name'', JStr ''Misc API''), (''tags'', JArr [JStr ''Climate''])],
                   JObj [(''name'', JStr ''Crypto API''), (''description'', JStr ''bitcoin'')]]),
        snd (discover_services (X402Client None 30)
          (mock_session (Reply (mock_response 200
            (Some (JArr [JObj [(''name'', JStr ''Weather API'' :: unit jvalue), (''description'', JStr ''clouds''),
                              (''tags'', JArr [])],
                         JObj [(''name'', JStr ''Misc API''), (''tags'', JArr [JStr ''Climate''])],
                         JObj [(''name'', JStr ''Crypto API''), (''description'', JStr ''bitcoin'')]]))
            [])))))
   \<and> fst (search_services (X402Client None 30) []
        (mock_session (Reply (mock_response 200
          (Some (JArr [JObj [(''name'', JStr ''Weather API'' :: unit jvalue), (''description'', JStr ''clouds''),
                            (''tags'', JArr [])],
                       JObj [(''name'', JStr ''Misc API''), (''tags'', JArr [JStr ''Climate''])],
                       JObj [(''name'', JStr ''Crypto API''), (''description'', JStr ''bitcoin'')]]))
          []))))
       = Inr [JObj [(''name'', JStr ''Weather API''), (''description'', JStr ''clouds''),
                    (''tags'', JArr [])],
              JObj [(''name'', JStr ''Misc API''), (''tags'', JArr [JStr ''Climate''])],
              JObj [(''name'', JStr ''Crypto API''), (''description'', JStr ''bitcoin'')]]
   \<and> fst (search_services (X402Client None 30) ''CLI''
        (mock_session (Reply (mock_response 200
          (Some (JArr [JObj [(''name'', JStr ''Weather API'' :: unit jvalue), (''description'', JStr ''clouds''),
                            (''tags'', JArr [])],
                       JObj [(''name'', JStr ''Misc API''), (''tags'', JArr [JStr ''Climate''])],
                       JObj [(''name'', JStr ''Crypto API''), (''description'', JStr ''bitcoin'')]]))
          []))))
       = Inr [JObj [(''name'', JStr ''Misc API''), (''tags'', JArr [JStr ''Climate''])]]"
proof -
  let ?svcs = "[JObj [(''name'', JStr ''Weather API''), (''description'', JStr ''clouds''),
                      (''tags'', JArr [])],
                JObj [(''name'', JStr ''Misc API''), (''tags'', JArr [JStr ''Climate''])],
                JObj [(''name'', JStr ''Crypto API''), (''description'', JStr ''bitcoin'')]]
               :: unit jvalue list"
  let ?s = "mock_session (Reply (mock_response 200 (Some (JArr ?svcs)) []))"
  let ?c = "X402Client None 30"
  have "fst (discover_services ?c ?s) = Inr (JArr ?svcs)"
    by (rule discover_services_mock [where n = 3]) (simp_all add: py_len_def)
  then have disc: "discover_services ?c ?s = (Inr (JArr ?svcs), snd (discover_services ?c ?s))"
    by (simp add: prod_eq_iff)
  have wf: "list_all is_service ?svcs"
    by (simp add: service_defs)
  then have names: "list_all has_str_name ?svcs"
    by (rule list_all_has_str_name)
  note inst = search_stable_filter [OF disc]
  from inst have "list_all has_str_name ?svcs \<longrightarrow>
      search_services ?c [] ?s = (Inr ?svcs, snd (discover_services ?c ?s))"
    by (rule conjunct1)
  from this names
  have "search_services ?c [] ?s = (Inr ?svcs, snd (discover_services ?c ?s))"
    by (rule mp)
  then have whole: "fst (search_services ?c [] ?s) = Inr ?svcs"
    by (simp only: fst_conv)
  from inst have "list_all is_service ?svcs \<longrightarrow>
      (\<forall>q. search_services ?c q ?s
             = (Inr (filter (service_matches (lower q)) ?svcs), snd (discover_services ?c ?s)))"
    by (rule conjunct1 [OF conjunct2])
  from this wf
  have "\<forall>q. search_services ?c q ?s
             = (Inr (filter (service_matches (lower q)) ?svcs), snd (discover_services ?c ?s))"
    by (rule mp)
  then have "search_services ?c ''CLI'' ?s
      = (Inr (filter (service_matches (lower ''CLI'')) ?svcs), snd (discover_services ?c ?s))"
    by (rule spec)
  then have "fst (search_services ?c ''CLI'' ?s)
      = Inr (filter (service_matches (lower ''CLI'')) ?svcs)"
    by (simp only: fst_conv)
  also have "lower ''CLI'' = ''cli''"
    by (simp add: fold_defs)
  also have "filter (service_matches ''cli'') ?svcs
      = [JObj [(''name'', JStr ''Misc API''), (''tags'', JArr [JStr ''Climate''])]]"
    by (simp add: service_matches_def text_field_def tag_list_def fold_defs)
  finally have part: "fst (search_services ?c ''CLI'' ?s)
      = Inr [JObj [(''name'', JStr ''Misc API''), (''tags'', JArr [JStr ''Climate''])]]" .
  show ?thesis by (rule conjI [OF disc conjI [OF whole part]])
qed

text \<open>
  The search folds the case of the letters above \<^verbatim>\<open>U+007F\<close> too. The query is
  \<^verbatim>\<open>COLE\<close> after a capital E with acute accent, \<^verbatim>\<open>U+00C9\<close>; it keeps the service whose
  name is \<^verbatim>\<open>cole api\<close> after the small letter \<^verbatim>\<open>U+00E9\<close>, and not the one named
  \<^verbatim>\<open>ecole\<close>.
\<close>

lemma search_latin1_example:
  "fst (search_services (X402Client None 30) (CHR 0xC9 # ''COLE'')
         (mock_session (Reply (mock_response 200
            (Some (JArr [JObj [(''name'', JStr (CHR 0xE9 # ''cole api'') :: unit jvalue)],
                         JObj [(''name'', JStr ''ecole'')]]))
            []))))
     = Inr [JObj [(''name'', JStr (CHR 0xE9 # ''cole api''))]]"
proof -
  let ?svcs = "[JObj [(''name'', JStr (CHR 0xE9 # ''cole api''))],
                JObj [(''name'', JStr ''ecole'')]] :: unit jvalue list"
  let ?s = "mock_session (Reply (mock_response 200 (Some (JArr ?svcs)) []))"
  let ?c = "X402Client None 30"
  have "fst (discover_services ?c ?s) = Inr (JArr ?svcs)"
    by (rule discover_services_mock [where n = 2]) (simp_all add: py_len_def)
  then have disc: "discover_services ?c ?s = (Inr (JArr ?svcs), snd (discover_services ?c ?s))"
    by (simp add: prod_eq_iff)
  have wf: "list_all is_service ?svcs"
    by (simp add: is_service_def str_field_def tags_field_def is_str_def)
  have q: "lower (CHR 0xC9 # ''COLE'') = CHR 0xE9 # ''cole''"
    by (simp add: fold_defs)
  have "fst (search_services ?c (CHR 0xC9 # ''COLE'') ?s)
      = filter_services (lower (CHR 0xC9 # ''COLE'')) ?svcs"
    unfolding search_services_result [OF disc]
    by (simp add: iterate_def del: filter_services.simps)
  also have "\<dots> = Inr (filter (service_matches (CHR 0xE9 # ''cole'')) ?svcs)"
    unfolding q by (rule filter_services_services [OF wf])
  also have "filter (service_matches (CHR 0xE9 # ''cole'')) ?svcs
      = [JObj [(''name'', JStr (CHR 0xE9 # ''cole api''))]]"
    by (simp add: service_matches_def text_field_def tag_list_def fold_defs)
  finally show ?thesis .
qed

text \<open>
  Claim C9, as the code has it. When discovery returns a list of service dicts (each name,
  if there is one, a string), \<^verbatim>\<open>get_service_details\<close> returns the first service of the
  list whose lower-cased name equals the lower-cased queried name, a missing name reading as
  the empty string, and \<^verbatim>\<open>None\<close> when no service has the name. When discovery raises an
  instance of \<^verbatim>\<open>Exception\<close>, whichever it is, \<^verbatim>\<open>get_service_details\<close> returns
  \<^verbatim>\<open>None\<close>; what discovery raises outside \<^verbatim>\<open>Exception\<close> it raises in turn; and it
  never raises an instance of \<^verbatim>\<open>Exception\<close>.
\<close>

theorem service_lookup:
  "(\<forall>svcs s'. discover_services self s = (Inr (JArr svcs), s') \<and> list_all has_str_name svcs \<longrightarrow>
       get_service_details self name s
         = (Inr (find (\<lambda>svc. name_lower svc = lower name) svcs), s'))
   \<and> (\<forall>svcs s'. discover_services self s = (Inr (JArr svcs), s') \<and> list_all has_str_name svcs
         \<and> (\<forall>svc \<in> set svcs. name_lower svc \<noteq> lower name) \<longrightarrow>
       get_service_details self name s = (Inr None, s'))
   \<and> (\<forall>e s'. discover_services self s = (Inl e, s') \<and> is_Exception e \<longrightarrow>
       get_service_details self name s = (Inr None, s'))
   \<and> (\<forall>e s'. discover_services self s = (Inl e, s') \<and> \<not> is_Exception e \<longrightarrow>
       get_service_details self name s = (Inl e, s'))
   \<and> (\<forall>e. fst (get_service_details self name s) = Inl e \<longrightarrow> \<not> is_Exception e)"
proof -
  have first: "get_service_details self name s
      = (Inr (find (\<lambda>svc. name_lower svc = lower name) svcs), s')"
    if "discover_services self s = (Inr (JArr svcs), s')" and "list_all has_str_name svcs"
    for svcs s'
    by (simp add: get_service_details_result [OF that(1)] iterate_def
        find_service_names [OF that(2)])
  have none: "get_service_details self name s = (Inr None, s')"
    if "discover_services self s = (Inr (JArr svcs), s')" and "list_all has_str_name svcs"
      and "\<forall>svc \<in> set svcs. name_lower svc \<noteq> lower name"
    for svcs s'
  proof -
    from that(3) have "find (\<lambda>svc. name_lower svc = lower name) svcs = None"
      by (simp add: find_None_iff)
    with first [OF that(1,2)] show ?thesis by simp
  qed
  have caught: "get_service_details self name s = (Inr None, s')"
    if "discover_services self s = (Inl e, s')" and "is_Exception e" for e s'
    using get_service_details_raises [OF that(1), of name] that(2) by simp
  have passed: "get_service_details self name s = (Inl e, s')"
    if "discover_services self s = (Inl e, s')" and "\<not> is_Exception e" for e s'
    using get_service_details_raises [OF that(1), of name] that(2) by simp
  have never: "\<not> is_Exception e" if "fst (get_service_details self name s) = Inl e" for e
    using that by (rule get_service_details_no_Exception)
  have c1: "\<forall>svcs s'. discover_services self s = (Inr (JArr svcs), s')
        \<and> list_all has_str_name svcs \<longrightarrow>
      get_service_details self name s
        = (Inr (find (\<lambda>svc. name_lower svc = lower name) svcs), s')"
    using first by blast
  have c2: "\<forall>svcs s'. discover_services self s = (Inr (JArr svcs), s')
        \<and> list_all has_str_name svcs
        \<and> (\<forall>svc \<in> set svcs. name_lower svc \<noteq> lower name) \<longrightarrow>
      get_service_details self name s = (Inr None, s')"
    using none by blast
  have c3: "\<forall>e s'. discover_services self s = (Inl e, s') \<and> is_Exception e \<longrightarrow>
      get_service_details self name s = (Inr None, s')"
    using caught by blast
  have c4: "\<forall>e s'. discover_services self s = (Inl e, s') \<and> \<not> is_Exception e \<longrightarrow>
      get_service_details self name s = (Inl e, s')"
    using passed by blast
  have c5: "\<forall>e. fst (get_service_details self name s) = Inl e \<longrightarrow> \<not> is_Exception e"
    using never by blast
  show ?thesis
    by (rule conjI [OF c1 conjI [OF c2 conjI [OF c3 conjI [OF c4 c5]]]])
qed

theorem service_lookup_witness:
  "discover_services (X402Client None 30)
       (mock_session (Reply (mock_response 200
          (Some (JArr [JObj [(''name'', JStr ''Crypto API'' :: unit jvalue)],
                       JObj [(''name'', JStr (''CAF'' @ CHR 0xC9 # '' API'')),
                             (''description'', JStr ''coffee'')],
                       JObj [(''name'', JStr (''caf'' @ CHR 0xE9 # '' api''))]]))
          [])))
     = (Inr (JArr [JObj [(''name'', JStr ''Crypto API'')],
                   JObj [(''name'', JStr (''CAF'' @ CHR 0xC9 # '' API'')),
                         (''description'', JStr ''coffee'')],
                   JObj [(''name'', JStr (''caf'' @ CHR 0xE9 # '' api''))]]),
        snd (discover_services (X402Client None 30)
          (mock_session (Reply (mock_response 200
            (Some (JArr [JObj [(''name'', JStr ''Crypto API'')],
                         JObj [(''name'', JStr (''CAF'' @ CHR 0xC9 # '' API'')),
                               (''description'', JStr ''coffee'')],
                         JObj [(''name'', JStr (''caf'' @ CHR 0xE9 # '' api''))]]))
            [])))))
   \<and> fst (get_service_details (X402Client None 30) (''caf'' @ CHR 0xE9 # '' api'')
        (mock_session (Reply (mock_response 200
          (Some (JArr [JObj [(''name'', JStr ''Crypto API'' :: unit jvalue)],
                       JObj [(''name'', JStr (''CAF'' @ CHR 0xC9 # '' API'')),
                             (''description'', JStr ''coffee'')],
                       JObj [(''name'', JStr (''caf'' @ CHR 0xE9 # '' api''))]]))
          []))))
       = Inr (Some (JObj [(''name'', JStr (''CAF'' @ CHR 0xC9 # '' API'')),
                          (''description'', JStr ''coffee'')]))"
proof -
  let ?svcs = "[JObj [(''name'', JStr ''Crypto API'')],
                JObj [(''name'', JStr (''CAF'' @ CHR 0xC9 # '' API'')),
                      (''description'', JStr ''coffee'')],
                JObj [(''name'', JStr (''caf'' @ CHR 0xE9 # '' api''))]] :: unit jvalue list"
  let ?q = "''caf'' @ CHR 0xE9 # '' api''"
  let ?s = "mock_session (Reply (mock_response 200 (Some (JArr ?svcs)) []))"
  let ?c = "X402Client None 30"
  have "fst (discover_services ?c ?s) = Inr (JArr ?svcs)"
    by (rule discover_services_mock [where n = 3]) (simp_all add: py_len_def)
  then have disc: "discover_services ?c ?s = (Inr (JArr ?svcs), snd (discover_services ?c ?s))"
    by (simp add: prod_eq_iff)
  have names: "list_all has_str_name ?svcs"
    by (simp add: has_str_name_def str_field_def is_str_def)
  from service_lookup [of ?c ?s ?q]
  have "\<forall>svcs s'. discover_services ?c ?s = (Inr (JArr svcs), s') \<and> list_all has_str_name svcs \<longrightarrow>
       get_service_details ?c ?q ?s
         = (Inr (find (\<lambda>svc. name_lower svc = lower ?q) svcs), s')"
    by (rule conjunct1)
  then have "discover_services ?c ?s = (Inr (JArr ?svcs), snd (discover_services ?c ?s))
       \<and> list_all has_str_name ?svcs \<longrightarrow>
       get_service_details ?c ?q ?s
         = (Inr (find (\<lambda>svc. name_lower svc = lower ?q) ?svcs),
            snd (discover_services ?c ?s))"
    by (elim allE)
  from this conjI [OF disc names]
  have "get_service_details ?c ?q ?s
         = (Inr (find (\<lambda>svc. name_lower svc = lower ?q) ?svcs),
            snd (discover_services ?c ?s))"
    by (rule mp)
  then have "fst (get_service_details ?c ?q ?s)
         = Inr (find (\<lambda>svc. name_lower svc = lower ?q) ?svcs)"
    by (simp only: fst_conv)
  also have "find (\<lambda>svc. name_lower svc = lower ?q) ?svcs
      = Some (JObj [(''name'', JStr (''CAF'' @ CHR 0xC9 # '' API'')),
                    (''description'', JStr ''coffee'')])"
    by (simp add: name_lower_def text_field_def fold_defs)
  finally have found: "fst (get_service_details ?c ?q ?s)
      = Inr (Some (JObj [(''name'', JStr (''CAF'' @ CHR 0xC9 # '' API'')),
                         (''description'', JStr ''coffee'')]))" .
  show ?thesis by (rule conjI [OF disc found])
qed

text \<open>
  Claim C9 as stated fails for what discovery raises outside \<^verbatim>\<open>Exception\<close>: a
  \<^verbatim>\<open>KeyboardInterrupt\<close> during the request passes the \<^verbatim>\<open>except Exception\<close> of
  \<^verbatim>\<open>get_service_details\<close> and is raised, not turned into \<^verbatim>\<open>None\<close>.
\<close>

theorem interrupt_propagates_counterexample:
  "fst (get_service_details (X402Client None 30) ''Weather API''
         (mock_session (Raises (BaseException ''KeyboardInterrupt'')) :: unit session))
     = Inl (BaseException ''KeyboardInterrupt'')"
  by (simp add: get_service_details_def get_service_details_try_def discover_services_def
      request_def mock_session_def always_def is_Exception_def)

lemma attr_get_missing_key:
  "map_of d k = None \<Longrightarrow> attr_get (JObj ((k, dflt) # d)) k dflt = attr_get (JObj d) k dflt"
  by (simp add: attr_get_def dict_get_def)

lemma attr_get_other_key:
  "k' \<noteq> k \<Longrightarrow> attr_get (JObj ((k, v) # d)) k' dflt = attr_get (JObj d) k' dflt"
  by (simp add: attr_get_def dict_get_def)

lemma matches_missing_name:
  assumes "map_of d ''name'' = None"
  shows "matches q (JObj d) = matches q (JObj ((''name'', JStr []) # d))"
proof -
  have "attr_get (JObj ((''name'', JStr []) # d)) ''name'' (JStr [])
      = attr_get (JObj d) ''name'' (JStr [])"
    using assms by (rule attr_get_missing_key)
  moreover have "attr_get (JObj ((''name'', JStr []) # d)) ''description'' (JStr [])
      = attr_get (JObj d) ''description'' (JStr [])"
    by (rule attr_get_other_key) simp
  moreover have "attr_get (JObj ((''name'', JStr []) # d)) ''tags'' (JArr [])
      = attr_get (JObj d) ''tags'' (JArr [])"
    by (rule attr_get_other_key) simp
  ultimately show ?thesis
    unfolding matches_def by (simp only:)
qed

lemma matches_missing_description:
  assumes "map_of d ''description'' = None"
  shows "matches q (JObj d) = matches q (JObj ((''description'', JStr []) # d))"
proof -
  have "attr_get (JObj ((''description'', JStr []) # d)) ''description'' (JStr [])
      = attr_get (JObj d) ''description'' (JStr [])"
    using assms by (rule attr_get_missing_key)
  moreover have "attr_get (JObj ((''description'', JStr []) # d)) ''name'' (JStr [])
      = attr_get (JObj d) ''name'' (JStr [])"
    by (rule attr_get_other_key) simp
  moreover have "attr_get (JObj ((''description'', JStr []) # d)) ''tags'' (JArr [])
      = attr_get (JObj d) ''tags'' (JArr [])"
    by (rule attr_get_other_key) simp
  ultimately show ?thesis
    unfolding matches_def by (simp only:)
qed

lemma matches_missing_tags:
  assumes "map_of d ''tags'' = None"
  shows "matches q (JObj d) = matches q (JObj ((''tags'', JArr []) # d))"
proof -
  have "attr_get (JObj ((''tags'', JArr []) # d)) ''tags'' (JArr [])
      = attr_get (JObj d) ''tags'' (JArr [])"
    using assms by (rule attr_get_missing_key)
  moreover have "attr_get (JObj ((''tags'', JArr []) # d)) ''name'' (JStr [])
      = attr_get (JObj d) ''name'' (JStr [])"
    by (rule attr_get_other_key) simp
  moreover have "attr_get (JObj ((''tags'', JArr []) # d)) ''description'' (JStr [])
      = attr_get (JObj d) ''description'' (JStr [])"
    by (rule attr_get_other_key) simp
  ultimately show ?thesis
    unfolding matches_def by (simp only:)
qed

lemmas matches_missing_field =
  matches_missing_name matches_missing_description matches_missing_tags

lemma find_service_nameless:
  assumes "map_of d ''name'' = None"
  shows "find_service name (JObj d # rest)
           = (if name = [] then Inr (Some (JObj d)) else find_service name rest)"
proof -
  have "attr_get (JObj d) ''name'' (JStr []) = Inr (JStr [])"
    using assms by (simp add: attr_get_def dict_get_def)
  moreover have "([] = lower name) = (name = [])"
    using lower_eq_Nil [of name] by auto
  ultimately show ?thesis
    by (simp add: str_lower_def lower_Nil)
qed

lemma found_has_name:
  assumes "find (\<lambda>svc. name_lower svc = lower name) svcs = Some svc" and "name \<noteq> []"
  shows "has_name svc"
proof -
  from assms(1) have "name_lower svc = lower name"
    by (auto simp: find_Some_iff)
  with assms(2) have ne: "name_lower svc \<noteq> []"
    by (simp add: lower_eq_Nil)
  then obtain d where d: "svc = JObj d"
    by (cases svc) (simp_all add: name_lower_def)
  with ne have "text_field d ''name'' \<noteq> []"
    by (simp add: name_lower_def lower_eq_Nil)
  then have "map_of d ''name'' \<noteq> None"
    by (auto simp: text_field_def split: option.splits)
  with d show ?thesis by (simp add: has_name_def)
qed

text \<open>
  Claim C10, as the code has it. Over services of the data model with any of \<^verbatim>\<open>name\<close>,
  \<^verbatim>\<open>description\<close> and \<^verbatim>\<open>tags\<close> missing, \<^verbatim>\<open>search_services\<close> and
  \<^verbatim>\<open>get_service_details\<close> return without error, and the empty query returns every
  service. A missing field is read exactly as the empty string (missing tags as the empty
  list): the condition of the search gives the same on the dict with the field added,
  empty. In the lookup a service without a name is passed over for every queried name
  other than the empty string, so for such a name the service found has a name; for the
  empty queried name the service without a name is the match.
\<close>

theorem missing_fields_total:
  assumes "discover_services self s = (Inr (JArr svcs), s')"
    and "list_all is_service svcs"
  shows "(\<exists>rs. search_services self q s = (Inr rs, s'))
       \<and> search_services self [] s = (Inr svcs, s')
       \<and> (\<exists>found. get_service_details self name s = (Inr found, s')
             \<and> (name \<noteq> [] \<longrightarrow> (\<forall>svc. found = Some svc \<longrightarrow> has_name svc)))
       \<and> (\<forall>d :: 'a dict. map_of d ''name'' = None \<longrightarrow>
             matches q (JObj d) = matches q (JObj ((''name'', JStr []) # d)))
       \<and> (\<forall>d :: 'a dict. map_of d ''description'' = None \<longrightarrow>
             matches q (JObj d) = matches q (JObj ((''description'', JStr []) # d)))
       \<and> (\<forall>d :: 'a dict. map_of d ''tags'' = None \<longrightarrow>
             matches q (JObj d) = matches q (JObj ((''tags'', JArr []) # d)))
       \<and> (\<forall>(d :: 'a dict) rest. map_of d ''name'' = None \<longrightarrow>
             find_service name (JObj d # rest)
               = (if name = [] then Inr (Some (JObj d)) else find_service name rest))"
proof -
  have names: "list_all has_str_name svcs"
    using assms(2) by (rule list_all_has_str_name)
  have total: "\<exists>rs. search_services self q s = (Inr rs, s')"
    by (simp add: search_services_result [OF assms(1)] iterate_def
        filter_services_services [OF assms(2)])
  have whole: "search_services self [] s = (Inr svcs, s')"
    by (simp add: search_services_result [OF assms(1)] iterate_def lower_Nil
        filter_services_empty [OF names])
  have gsd: "get_service_details self name s
      = (Inr (find (\<lambda>svc. name_lower svc = lower name) svcs), s')"
    by (simp add: get_service_details_result [OF assms(1)] iterate_def
        find_service_names [OF names])
  have lookup: "\<exists>found. get_service_details self name s = (Inr found, s')
      \<and> (name \<noteq> [] \<longrightarrow> (\<forall>svc. found = Some svc \<longrightarrow> has_name svc))"
    unfolding gsd using found_has_name by blast
  have m1: "\<forall>d :: 'a dict. map_of d ''name'' = None \<longrightarrow>
      matches q (JObj d) = matches q (JObj ((''name'', JStr []) # d))"
    using matches_missing_field(1) by blast
  have m2: "\<forall>d :: 'a dict. map_of d ''description'' = None \<longrightarrow>
      matches q (JObj d) = matches q (JObj ((''description'', JStr []) # d))"
    using matches_missing_field(2) by blast
  have m3: "\<forall>d :: 'a dict. map_of d ''tags'' = None \<longrightarrow>
      matches q (JObj d) = matches q (JObj ((''tags'', JArr []) # d))"
    using matches_missing_field(3) by blast
  have f: "\<forall>(d :: 'a dict) rest. map_of d ''name'' = None \<longrightarrow>
      find_service name (JObj d # rest)
        = (if name = [] then Inr (Some (JObj d)) else find_service name rest)"
    using find_service_nameless by blast
  show ?thesis
    by (rule conjI [OF total conjI [OF whole conjI [OF lookup
          conjI [OF m1 conjI [OF m2 conjI [OF m3 f]]]]]])
qed


theorem missing_fields_total_witness:
  "discover_services (X402Client None 30)
       (mock_session (Reply (mock_response 200
          (Some (JArr [JObj [(''description'', JStr ''clouds'' :: unit jvalue)],
                       JObj [(''name'', JStr ''Weather API'')]]))
          [])))
     = (Inr (JArr [JObj [(''description'', JStr ''clouds'')],
                   JObj [(''name'', JStr ''Weather API'')]]),
        snd (discover_services (X402Client None 30)
          (mock_session (Reply (mock_response 200
            (Some (JArr [JObj [(''description'', JStr ''clouds'')],
                         JObj [(''name'', JStr ''Weather API'')]]))
            [])))))
   \<and> list_all is_service
        [JObj [(''description'', JStr ''clouds'' :: unit jvalue)],
         JObj [(''name'', JStr ''Weather API'')]]
   \<and> fst (search_services (X402Client None 30) []
        (mock_session (Reply (mock_response 200
          (Some (JArr [JObj [(''description'', JStr ''clouds'' :: unit jvalue)],
                       JObj [(''name'', JStr ''Weather API'')]]))
          []))))
       = Inr [JObj [(''description'', JStr ''clouds'')],
              JObj [(''name'', JStr ''Weather API'')]]"
proof -
  let ?svcs = "[JObj [(''description'', JStr ''clouds'')],
                JObj [(''name'', JStr ''Weather API'')]] :: unit jvalue list"
  let ?s = "mock_session (Reply (mock_response 200 (Some (JArr ?svcs)) []))"
  let ?c = "X402Client None 30"
  have "fst (discover_services ?c ?s) = Inr (JArr ?svcs)"
    by (rule discover_services_mock [where n = 2]) (simp_all add: py_len_def)
  then have disc: "discover_services ?c ?s = (Inr (JArr ?svcs), snd (discover_services ?c ?s))"
    by (simp add: prod_eq_iff)
  have wf: "list_all is_service ?svcs"
    by (simp add: is_service_def str_field_def tags_field_def is_str_def)
  from missing_fields_total [OF disc wf, of "[]" "[]"]
  have "search_services ?c [] ?s = (Inr ?svcs, snd (discover_services ?c ?s))"
    by (rule conjunct1 [OF conjunct2])
  then have whole: "fst (search_services ?c [] ?s) = Inr ?svcs"
    by (simp only: fst_conv)
  show ?thesis by (rule conjI [OF disc conjI [OF wf whole]])
qed

text \<open>
  Claim C10 as stated fails for the empty queried name: a service without a name is then not
  a non-match, \<^verbatim>\<open>get_service_details("")\<close> returns it.
\<close>

theorem nameless_match_counterexample:
  "fst (get_service_details (X402Client None 30) []
         (mock_session (Reply (mock_response 200
            (Some (JArr [JObj [(''description'', JStr ''clouds'' :: unit jvalue)]])) []))))
     = Inr (Some (JObj [(''description'', JStr ''clouds'')]))"
proof -
  let ?svcs = "[JObj [(''description'', JStr ''clouds'')]] :: unit jvalue list"
  let ?s = "mock_session (Reply (mock_response 200 (Some (JArr ?svcs)) []))"
  let ?c = "X402Client None 30"
  have "fst (discover_services ?c ?s) = Inr (JArr ?svcs)"
    by (rule discover_services_mock [where n = 1]) (simp_all add: py_len_def)
  then have disc: "discover_services ?c ?s = (Inr (JArr ?svcs), snd (discover_services ?c ?s))"
    by (simp add: prod_eq_iff)
  have "find_service [] ?svcs = Inr (Some (JObj [(''description'', JStr ''clouds'')]))"
    by (simp add: attr_get_def dict_get_def str_lower_def lower_Nil)
  then show ?thesis
    by (simp add: get_service_details_result [OF disc] iterate_def)
qed

end
